theory Spec2Isabelle
  imports Complex_Main "HOL-Library.AList"
begin

section \<open>Data passed between the pipeline stages of \<^verbatim>\<open>vfvs_run.py\<close>\<close>

text \<open>
  The stages of \<^verbatim>\<open>tools/templates/vfvs_run.py\<close> exchange Python dictionaries over queues.
  A dictionary with a fixed set of keys is a record here, a dictionary whose keys are data
  (ligand names, scenario names, column names) is an association list in insertion order
  (\<open>AList.update\<close> is Python's \<^verbatim>\<open>d[k] = v\<close>: it overwrites in place or appends) or a map.
  A field is named after its key; where two dictionaries share a key, the fields of one
  carry a prefix (\<open>log_\<close>, \<open>dl_\<close>, \<open>cc_\<close>, \<open>sr_\<close>, \<open>sc_\<close>, \<open>lig_\<close>, \<open>item_\<close>, \<open>batch_\<close>,
  \<open>ctx_\<close>, \<open>cfg_\<close>). An exception that leaves a stage is a value \<open>Inl e\<close>. Scores are
  Python floats; they are taken as real numbers, so rounding is not part of the model.
\<close>

datatype py_error =
  KeyError | TypeError | ValueError | IndexError | RuntimeError | StatisticsError
  | FileNotFoundError | Shutil_Error

text \<open>The \<^verbatim>\<open>'log'\<close> dictionary of a skip event and of a docking item.\<close>

record log_entry =
  log_base_collection_key :: string
  log_collection_key :: string
  log_ligand_key :: string
  log_reason :: string

text \<open>The \<^verbatim>\<open>'log'\<close> dictionary of a \<^verbatim>\<open>download_failed\<close> event.\<close>

record download_log =
  dl_base_collection_key :: string
  dl_reason :: string
  dl_dockings :: int

text \<open>The dictionary \<^verbatim>\<open>docking_item\<close> built by \<^verbatim>\<open>submit_ligand_for_docking\<close>.\<close>

record docking_task =
  ligand_key :: string
  ligand_path :: string
  scenario_key :: string
  collection_key :: string
  base_collection_key :: string
  config_path :: string
  program :: string
  program_long :: string
  input_files_dir :: string
  timeout :: int
  tools_path :: string
  threads_per_docking :: int
  temp_dir :: string
  attrs :: "(string \<times> string) list"
  output_dir :: string

text \<open>
  The same dictionary after \<^verbatim>\<open>docking_process_batch\<close> has added its keys. \<open>score\<close>, \<open>uuid\<close>
  and \<open>tmp_run_dir\<close> are \<open>None\<close> while the key is absent. The keys that hold times are left
  out.
\<close>

record docking_item = docking_task +
  output_path :: string
  status :: string
  log_path :: string
  log :: log_entry
  score :: "real option"
  uuid :: "string option"
  tmp_run_dir :: "string option"

text \<open>
  The dictionary \<^verbatim>\<open>batched_item\<close> of \<^verbatim>\<open>docking_process_batch\<close>. The keys \<^verbatim>\<open>'uuid'\<close> and
  \<^verbatim>\<open>'output_dir'\<close> are set by \<^verbatim>\<open>docking_process_setup_common\<close> in the batch model only.
\<close>

record batched_item =
  items :: "docking_item list"
  batch_program :: string
  execution_type :: string
  batch_scenario_key :: string
  batch_uuid :: "string option"
  batch_output_dir :: "string option"

text \<open>
  The items of the summary queue, by their \<^verbatim>\<open>'type'\<close>:
  \<open>Delete temp_dir base_collection_key expected_completions\<close>, and \<open>Other\<close> for any
  other type.
\<close>

datatype summary_item =
  Delete string string int
  | Download_failed download_log
  | Skip log_entry
  | Docking_complete batched_item
  | Other string

section \<open>The aggregator: \<^verbatim>\<open>summary_process\<close>\<close>

record completion =
  expected_completions :: int
  current_completions :: int
  cc_temp_dir :: string

text \<open>
  The dictionary \<^verbatim>\<open>overview_data\<close>, without the keys \<^verbatim>\<open>metadata\<close> and \<^verbatim>\<open>sec\<close>, which the loop
  does not read.
\<close>

record overview_data =
  total_dockings :: int
  dockings_status :: "(string \<times> int) list"
  skipped_ligands :: int
  skipped_ligand_list :: "log_entry list"
  failed_list :: "log_entry list"
  failed_downloads :: int
  failed_downloads_log :: "download_log list"
  failed_downloads_dockings :: int

text \<open>One entry of \<^verbatim>\<open>summary_data[scenario_key]\<close>, before it is reduced.\<close>

record summary_row =
  sr_ligand :: string
  sr_collection_key :: string
  sr_scenario :: string
  sr_scores :: "real list"
  sr_attrs :: "(string \<times> string) list"

text \<open>
  The file system calls of the aggregator: \<^verbatim>\<open>Path.iterdir\<close> gives the entries of a
  directory (as the strings \<^verbatim>\<open>str(dir_file)\<close>), \<^verbatim>\<open>shutil.move\<close> moves an entry and
  \<^verbatim>\<open>shutil.rmtree\<close> removes a tree. Each of them can raise: \<^verbatim>\<open>iterdir\<close> and \<^verbatim>\<open>rmtree\<close> when the
  directory is not there, \<^verbatim>\<open>move\<close> when the destination directory already holds an entry
  of the same name. What is on the disk is written by the other stages, so the file
  system \<open>'fs\<close> and what the three calls do with it are parameters.
\<close>

record 'fs os =
  iterdir :: "'fs \<Rightarrow> string \<Rightarrow> py_error + string list"
  move :: "'fs \<Rightarrow> string \<Rightarrow> string \<Rightarrow> py_error + 'fs"
  rmtree :: "'fs \<Rightarrow> string \<Rightarrow> py_error + 'fs"

text \<open>
  A call that returned: \<open>Iterdir p entries\<close> is \<^verbatim>\<open>p.iterdir()\<close> with the entries it gave,
  \<open>Move src dst\<close> is \<^verbatim>\<open>shutil.move(src, dst)\<close>, \<open>Rmtree p\<close> is \<^verbatim>\<open>shutil.rmtree(p)\<close>.
\<close>

datatype fs_call = Iterdir string "string list" | Move string string | Rmtree string

text \<open>
  The local variables of \<^verbatim>\<open>summary_process\<close> and the file system. \<open>effects\<close> lists the file
  system calls that returned, in order, each with the collection key for which
  \<^verbatim>\<open>check_for_completion_of_collection_key\<close> made it (\<open>None\<close> for a call of
  \<^verbatim>\<open>move_batch_logs\<close>); \<open>completed\<close> lists the entries popped from
  \<^verbatim>\<open>collection_completions\<close>, with their keys, in order.
\<close>

record 'fs summary_state =
  overview :: overview_data
  summary_data :: "(string \<times> (string \<times> summary_row) list) list"
  dockings_processed :: int
  collection_completions :: "string \<rightharpoonup> completion"
  file_system :: 'fs
  effects :: "(string option \<times> fs_call) list"
  completed :: "(string \<times> completion) list"

text \<open>
  The loop \<^verbatim>\<open>for dir_file in src.iterdir(): shutil.move(str(dir_file), dst)\<close> of lines
  654-655 and 666-667: the directory is listed, then the entries are moved one by one. An
  exception of a call ends the loop and leaves the function.
\<close>

fun move_files ::
  "'fs os \<Rightarrow> string option \<Rightarrow> 'fs summary_state \<Rightarrow> string list \<Rightarrow> string
     \<Rightarrow> py_error + 'fs summary_state" where
  "move_files os caller st [] dst = Inr st"
| "move_files os caller st (dir_file # rest) dst =
     (case move os (file_system st) dir_file dst of
        Inl err \<Rightarrow> Inl err
      | Inr disk \<Rightarrow>
          move_files os caller
            (st\<lparr>file_system := disk, effects := effects st @ [(caller, Move dir_file dst)]\<rparr>)
            rest dst)"

definition move_entries ::
  "'fs os \<Rightarrow> string option \<Rightarrow> 'fs summary_state \<Rightarrow> string \<Rightarrow> string
     \<Rightarrow> py_error + 'fs summary_state" where
  "move_entries os caller st src dst =
     (case iterdir os (file_system st) src of
        Inl err \<Rightarrow> Inl err
      | Inr dir_files \<Rightarrow>
          move_files os caller
            (st\<lparr>effects := effects st @ [(caller, Iterdir src dir_files)]\<rparr>) dir_files dst)"

text \<open>
  \<^verbatim>\<open>check_for_completion_of_collection_key\<close> (lines 658-670). \<open>scenario_directories\<close>
  maps each scenario key to its directory in the final output tree. \<open>move_scenarios\<close> is
  the loop of lines 664-667 over the scenarios still to visit: the entries of every
  scenario output directory of the collection are moved into the final tree. Then the
  directory of the collection is removed and its entry is popped; when a call raises, the
  rest is not done.
\<close>

fun move_scenarios ::
  "'fs os \<Rightarrow> string \<Rightarrow> 'fs summary_state \<Rightarrow> string \<Rightarrow> (string \<times> string) list
     \<Rightarrow> py_error + 'fs summary_state" where
  "move_scenarios os key st tmp [] = Inr st"
| "move_scenarios os key st tmp ((sk, scenario_dest) # rest) =
     (case move_entries os (Some key) st (tmp @ ''/output/'' @ sk) (scenario_dest @ ''/'') of
        Inl err \<Rightarrow> Inl err
      | Inr st' \<Rightarrow> move_scenarios os key st' tmp rest)"

definition check_for_completion_of_collection_key ::
  "'fs os \<Rightarrow> 'fs summary_state \<Rightarrow> string \<Rightarrow> (string \<times> string) list
     \<Rightarrow> py_error + 'fs summary_state" where
  "check_for_completion_of_collection_key os st key scenario_directories =
     (case collection_completions st key of
        None \<Rightarrow> Inl KeyError
      | Some e \<Rightarrow>
          if current_completions e = expected_completions e then
            (case move_scenarios os key st (cc_temp_dir e) scenario_directories of
               Inl err \<Rightarrow> Inl err
             | Inr st1 \<Rightarrow>
                 (case rmtree os (file_system st1) (cc_temp_dir e) of
                    Inl err \<Rightarrow> Inl err
                  | Inr disk \<Rightarrow>
                      Inr (st1\<lparr>file_system := disk,
                               effects := effects st1 @ [(Some key, Rmtree (cc_temp_dir e))],
                               collection_completions := (collection_completions st1)(key := None),
                               completed := completed st1 @ [(key, e)]\<rparr>)))
          else Inr st)"

text \<open>The body of the loop over \<^verbatim>\<open>item['items']\<close> (lines 759-792), for one item.\<close>

definition count_docking :: "overview_data \<Rightarrow> string \<Rightarrow> py_error + overview_data" where
  "count_docking od st_key =
     (let od1 = od\<lparr>total_dockings := total_dockings od + 1\<rparr> in
      case map_of (dockings_status od1) st_key of
        None \<Rightarrow> Inl KeyError
      | Some n \<Rightarrow> Inr (od1\<lparr>dockings_status := AList.update st_key (n + 1) (dockings_status od1)\<rparr>))"

definition record_score ::
  "(string \<times> (string \<times> summary_row) list) list \<Rightarrow> docking_item
     \<Rightarrow> py_error + (string \<times> (string \<times> summary_row) list) list" where
  "record_score sd single_item =
     (case map_of sd (scenario_key single_item) of
        None \<Rightarrow> Inl KeyError
      | Some rows \<Rightarrow>
          (case score single_item of
             None \<Rightarrow> Inl KeyError
           | Some s \<Rightarrow>
               (case map_of rows (ligand_key single_item) of
                  None \<Rightarrow>
                    Inr (AList.update (scenario_key single_item)
                      (AList.update (ligand_key single_item)
                         \<lparr>sr_ligand = ligand_key single_item,
                          sr_collection_key = collection_key single_item,
                          sr_scenario = scenario_key single_item,
                          sr_scores = [s],
                          sr_attrs = attrs single_item\<rparr> rows) sd)
                | Some row \<Rightarrow>
                    Inr (AList.update (scenario_key single_item)
                      (AList.update (ligand_key single_item)
                         (row\<lparr>sr_scores := sr_scores row @ [s]\<rparr>) rows) sd))))"

definition count_completion ::
  "'fs os \<Rightarrow> 'fs summary_state \<Rightarrow> string \<Rightarrow> (string \<times> string) list
     \<Rightarrow> py_error + 'fs summary_state" where
  "count_completion os st key scenario_directories =
     (case collection_completions st key of
        Some e \<Rightarrow>
          check_for_completion_of_collection_key os
            (st\<lparr>collection_completions := (collection_completions st)
                   (key \<mapsto> e\<lparr>current_completions := current_completions e + 1\<rparr>)\<rparr>)
            key scenario_directories
      | None \<Rightarrow>
          Inr (st\<lparr>collection_completions := (collection_completions st)
                 (key \<mapsto> \<lparr>expected_completions = - 1, current_completions = 1,
                           cc_temp_dir = ''''\<rparr>)\<rparr>))"

definition summary_single_item ::
  "'fs os \<Rightarrow> (string \<times> string) list \<Rightarrow> 'fs summary_state \<Rightarrow> docking_item
     \<Rightarrow> py_error + 'fs summary_state" where
  "summary_single_item os scenario_directories st single_item =
     (case count_docking (overview st) (status single_item) of
        Inl err \<Rightarrow> Inl err
      | Inr od \<Rightarrow>
          if status single_item = ''success'' then
            (case record_score (summary_data st) single_item of
               Inl err \<Rightarrow> Inl err
             | Inr sd \<Rightarrow>
                 count_completion os (st\<lparr>overview := od, summary_data := sd\<rparr>)
                   (base_collection_key single_item) scenario_directories)
          else
            count_completion os
              (st\<lparr>overview := od\<lparr>failed_list := failed_list od @ [log single_item]\<rparr>\<rparr>)
              (base_collection_key single_item) scenario_directories)"

fun summary_items ::
  "'fs os \<Rightarrow> (string \<times> string) list \<Rightarrow> 'fs summary_state \<Rightarrow> docking_item list
     \<Rightarrow> py_error + 'fs summary_state" where
  "summary_items os dirs st [] = Inr st"
| "summary_items os dirs st (single_item # rest) =
     (case summary_single_item os dirs st single_item of
        Inl err \<Rightarrow> Inl err
      | Inr st' \<Rightarrow> summary_items os dirs st' rest)"

text \<open>\<^verbatim>\<open>move_batch_logs\<close> (lines 650-656).\<close>

definition move_batch_logs ::
  "'fs os \<Rightarrow> 'fs summary_state \<Rightarrow> batched_item \<Rightarrow> (string \<times> string) list
     \<Rightarrow> py_error + 'fs summary_state" where
  "move_batch_logs os st item scenario_directories =
     (case map_of scenario_directories (batch_scenario_key item) of
        None \<Rightarrow> Inl KeyError
      | Some dir \<Rightarrow>
          (case batch_uuid item of
             None \<Rightarrow> Inl KeyError
           | Some u \<Rightarrow>
               (case batch_output_dir item of
                  None \<Rightarrow> Inl KeyError
                | Some out \<Rightarrow>
                    (case move_entries os None st out (dir @ ''/batch_exec/'' @ u @ ''/'') of
                       Inl err \<Rightarrow> Inl err
                     | Inr st1 \<Rightarrow>
                         (case rmtree os (file_system st1) out of
                            Inl err \<Rightarrow> Inl err
                          | Inr disk \<Rightarrow>
                              Inr (st1\<lparr>file_system := disk,
                                       effects := effects st1 @ [(None, Rmtree out)]\<rparr>))))))"

text \<open>
  One pass of the \<^verbatim>\<open>while True\<close> loop for an item that is not the sentinel (lines 732-800).
\<close>

definition summary_event ::
  "'fs os \<Rightarrow> (string \<times> string) list \<Rightarrow> 'fs summary_state \<Rightarrow> summary_item
     \<Rightarrow> py_error + 'fs summary_state" where
  "summary_event os scenario_directories st item =
     (case item of
        Delete tmp key expected \<Rightarrow>
          check_for_completion_of_collection_key os
            (st\<lparr>collection_completions := (collection_completions st)
                   (key \<mapsto> (case collection_completions st key of
                               Some e \<Rightarrow> e\<lparr>expected_completions := expected, cc_temp_dir := tmp\<rparr>
                             | None \<Rightarrow> \<lparr>expected_completions = expected, current_completions = 0,
                                        cc_temp_dir = tmp\<rparr>))\<rparr>)
            key scenario_directories
      | Download_failed l \<Rightarrow>
          Inr (st\<lparr>overview := (overview st)
                 \<lparr>failed_downloads := failed_downloads (overview st) + 1,
                  failed_downloads_log := failed_downloads_log (overview st) @ [l],
                  failed_downloads_dockings :=
                    failed_downloads_dockings (overview st) + dl_dockings l\<rparr>\<rparr>)
      | Skip l \<Rightarrow>
          Inr (st\<lparr>overview := (overview st)
                 \<lparr>skipped_ligands := skipped_ligands (overview st) + 1,
                  skipped_ligand_list := skipped_ligand_list (overview st) @ [l]\<rparr>\<rparr>)
      | Docking_complete b \<Rightarrow>
          (case summary_items os scenario_directories
                  (st\<lparr>dockings_processed := dockings_processed st + 1\<rparr>) (items b) of
             Inl err \<Rightarrow> Inl err
           | Inr st' \<Rightarrow>
               if execution_type b = ''batch'' then move_batch_logs os st' b scenario_directories
               else Inr st')
      | Other t \<Rightarrow> Inl RuntimeError)"

fun summary_loop ::
  "'fs os \<Rightarrow> (string \<times> string) list \<Rightarrow> 'fs summary_state \<Rightarrow> summary_item list
     \<Rightarrow> py_error + 'fs summary_state" where
  "summary_loop os dirs st [] = Inr st"
| "summary_loop os dirs st (item # rest) =
     (case summary_event os dirs st item of
        Inl err \<Rightarrow> Inl err
      | Inr st' \<Rightarrow> summary_loop os dirs st' rest)"

text \<open>
  The state before the loop (lines 680-704), for the configured scenario keys and the
  file system \<open>disk\<close> the loop starts on.
\<close>

definition summary_init :: "string list \<Rightarrow> 'fs \<Rightarrow> 'fs summary_state" where
  "summary_init scenario_keys disk =
     \<lparr>overview = \<lparr>total_dockings = 0,
                  dockings_status = [(''success'', 0), (''failed'', 0)],
                  skipped_ligands = 0, skipped_ligand_list = [], failed_list = [],
                  failed_downloads = 0, failed_downloads_log = [],
                  failed_downloads_dockings = 0\<rparr>,
      summary_data = fold (\<lambda>sk sd. AList.update sk [] sd) scenario_keys [],
      dockings_processed = 0,
      collection_completions = Map.empty,
      file_system = disk,
      effects = [],
      completed = []\<rparr>"

section \<open>Configuration\<close>

text \<open>
  One entry of \<^verbatim>\<open>ctx['main_config']['docking_scenarios']\<close>, as \<^verbatim>\<open>process_config\<close> builds it.
  The dictionary of scenarios is the list of its values, in insertion order.
\<close>

record scenario =
  sc_key :: string
  sc_config :: string
  sc_program :: string
  sc_program_long :: string
  sc_replicas :: int
  sc_batchsizes :: int

text \<open>
  The keys of \<^verbatim>\<open>ctx['main_config']\<close> read by the stages. The user's regular expression
  \<^verbatim>\<open>dynamic_tranche_filtering_regex\<close> is given by what \<^verbatim>\<open>re.compile\<close> makes of it: \<open>None\<close>
  when it raises \<^verbatim>\<open>re.error\<close>, otherwise the predicate \<^verbatim>\<open>compiled_regex.search\<close>.
\<close>

record main_config =
  docking_scenarios :: "scenario list"
  summary_formats :: "string list"
  job_storage_mode :: string
  object_store_job_prefix :: string
  object_store_job_bucket :: string
  job_name :: string
  sharedfs_output_files_path :: string
  run_atom_check :: int
  dynamic_tranche_filtering :: int
  dynamic_tranche_filtering_regex :: "(string \<Rightarrow> bool) option"
  ligand_library_format :: string
  print_attrs_in_summary :: "string list"
  program_timeout :: int
  cfg_threads_per_docking :: int

record ctx =
  main_config :: main_config
  ctx_temp_dir :: string
  ctx_tools_path :: string
  workunit_id :: string
  subjob_id :: string

section \<open>The reports written on the terminating sentinel\<close>

text \<open>A value of a reduced summary row: a string or a number.\<close>

datatype cell = Str string | Num real

text \<open>
  What is written to the local file of an upload: the overview, a summary table as a
  parquet file (the rows with all their keys), a summary table as delimited text (the
  header and, for each row, the value under each column, \<open>None\<close> where the row lacks the
  key and the empty string is written), or the archive of a directory.
\<close>

datatype artifact =
  Overview_json overview_data
  | Summary_parquet "(string \<times> (string \<times> cell) list) list"
  | Summary_csv "string list" "cell option list list"
  | Output_tar string

text \<open>
  An item of the upload queue. The keys \<^verbatim>\<open>local_path\<close> and \<^verbatim>\<open>temp_dir\<close> name a fresh
  directory of \<^verbatim>\<open>tempfile.mkdtemp\<close>; \<open>content\<close> stands for the file written there.
  Making the directory and writing the file are taken to succeed.
\<close>

record uploader_item =
  storage_type :: string
  remote_path :: string
  s3_bucket :: string
  content :: artifact

text \<open>\<^verbatim>\<open>generate_output_path\<close> (lines 814-828).\<close>

definition generate_output_path :: "ctx \<Rightarrow> string option \<Rightarrow> string \<Rightarrow> string \<Rightarrow> string" where
  "generate_output_path c scenario_key_opt content_type extension =
     (case scenario_key_opt of
        Some sk \<Rightarrow>
          if job_storage_mode (main_config c) = ''s3'' then
            object_store_job_prefix (main_config c) @ ''/'' @ job_name (main_config c) @ ''/''
              @ sk @ ''/'' @ content_type @ ''/'' @ workunit_id c @ ''/'' @ subjob_id c
              @ ''.'' @ extension
          else
            sharedfs_output_files_path (main_config c) @ ''/'' @ sk @ ''/'' @ content_type
              @ ''/'' @ workunit_id c @ ''/'' @ subjob_id c @ ''.'' @ extension
      | None \<Rightarrow>
          if job_storage_mode (main_config c) = ''s3'' then
            object_store_job_prefix (main_config c) @ ''/'' @ job_name (main_config c) @ ''/''
              @ content_type @ ''/'' @ workunit_id c @ ''/'' @ subjob_id c @ ''.'' @ extension
          else
            sharedfs_output_files_path (main_config c) @ ''/'' @ content_type
              @ ''/'' @ workunit_id c @ ''/'' @ subjob_id c @ ''.'' @ extension)"

definition upload :: "ctx \<Rightarrow> string option \<Rightarrow> string \<Rightarrow> string \<Rightarrow> artifact \<Rightarrow> uploader_item" where
  "upload c scenario_key_opt content_type extension a =
     \<lparr>storage_type = job_storage_mode (main_config c),
      remote_path = generate_output_path c scenario_key_opt content_type extension,
      s3_bucket = object_store_job_bucket (main_config c),
      content = a\<rparr>"

text \<open>\<^verbatim>\<open>generate_overview_file\<close> (lines 852-868).\<close>

definition generate_overview_file :: "ctx \<Rightarrow> overview_data \<Rightarrow> uploader_item" where
  "generate_overview_file c od = upload c None ''summary'' ''json.gz'' (Overview_json od)"

text \<open>\<^verbatim>\<open>generate_output_archives\<close> (lines 831-849): one archive for every scenario directory.\<close>

definition generate_output_archives :: "ctx \<Rightarrow> (string \<times> string) list \<Rightarrow> uploader_item list" where
  "generate_output_archives c scenario_directories =
     map (\<lambda>(sk, scenario_dir). upload c (Some sk) ''logs'' ''tar.gz'' (Output_tar scenario_dir))
       scenario_directories"

text \<open>Python's \<^verbatim>\<open>str(n)\<close> for a natural number, and \<^verbatim>\<open>s.split(sep)\<close> for a one-character separator.\<close>

fun str_nat :: "nat \<Rightarrow> string" where
  "str_nat n =
     (if n < 10 then [''0123456789'' ! n]
      else str_nat (n div 10) @ [''0123456789'' ! (n mod 10)])"

declare str_nat.simps [simp del]

fun split_on :: "char \<Rightarrow> string \<Rightarrow> string list" where
  "split_on sep [] = [[]]"
| "split_on sep (c # cs) =
     (if c = sep then [] # split_on sep cs
      else (case split_on sep cs of p # ps \<Rightarrow> (c # p) # ps | [] \<Rightarrow> [[c]]))"

text \<open>\<^verbatim>\<open>statistics.mean\<close> and \<^verbatim>\<open>min\<close> on a list; both raise on the empty list.\<close>

definition mean :: "real list \<Rightarrow> py_error + real" where
  "mean xs = (if xs = [] then Inl StatisticsError else Inr (sum_list xs / real (length xs)))"

definition py_min :: "real list \<Rightarrow> py_error + real" where
  "py_min xs = (case xs of [] \<Rightarrow> Inl ValueError | x # rest \<Rightarrow> Inr (fold min rest x))"

text \<open>
  The body of the loop over the rows of one scenario (lines 883-906), for one row: the
  row dictionary after the loop, without the popped keys \<^verbatim>\<open>scores\<close> and \<^verbatim>\<open>attrs\<close>.
\<close>

definition reduce_row :: "summary_row \<Rightarrow> py_error + (string \<times> cell) list" where
  "reduce_row row =
     (let d0 = [(''ligand'', Str (sr_ligand row)),
                (''collection_key'', Str (sr_collection_key row)),
                (''scenario'', Str (sr_scenario row))];
          d1 = fold (\<lambda>(index, s) d. AList.update (''score_'' @ str_nat index) (Num s) d)
                 (enumerate 0 (sr_scores row)) d0
      in case mean (sr_scores row) of
           Inl err \<Rightarrow> Inl err
         | Inr avg \<Rightarrow>
             (case py_min (sr_scores row) of
                Inl err \<Rightarrow> Inl err
              | Inr m \<Rightarrow>
                  (let d2 = AList.update ''score_min'' (Num m)
                              (AList.update ''score_average'' (Num avg) d1);
                       d3 = fold (\<lambda>(attr_name, attr_value) d.
                                    AList.update (''attr_'' @ attr_name) (Str attr_value) d)
                              (sr_attrs row) d2
                   in case split_on CHR ''_'' (sr_collection_key row) of
                        [collection_name, collection_number] \<Rightarrow>
                          Inr (fold (\<lambda>(letter_index, letter) d.
                                       AList.update (''tranche_'' @ str_nat letter_index)
                                         (Str [letter]) d)
                                 (enumerate 0 collection_name) d3)
                      | _ \<Rightarrow> Inl ValueError)))"

text \<open>The columns a row adds to \<^verbatim>\<open>csv_ordering\<close> (lines 895-898).\<close>

definition add_attr_columns :: "summary_row \<Rightarrow> string list \<Rightarrow> string list" where
  "add_attr_columns row csv_ordering =
     fold (\<lambda>(attr_name, attr_value) columns.
             if ''attr_'' @ attr_name \<in> set columns then columns
             else columns @ [''attr_'' @ attr_name])
       (sr_attrs row) csv_ordering"

text \<open>
  The loop over the rows of one scenario (lines 881-906): the reduced rows, the column
  ordering and \<^verbatim>\<open>max_scores\<close>.
\<close>

fun reduce_rows ::
  "(string \<times> summary_row) list \<Rightarrow> string list \<Rightarrow> nat
     \<Rightarrow> py_error + ((string \<times> (string \<times> cell) list) list \<times> string list \<times> nat)" where
  "reduce_rows [] csv_ordering max_scores = Inr ([], csv_ordering, max_scores)"
| "reduce_rows ((summary_key, summary_value) # rest) csv_ordering max_scores =
     (case reduce_row summary_value of
        Inl err \<Rightarrow> Inl err
      | Inr d \<Rightarrow>
          (case reduce_rows rest (add_attr_columns summary_value csv_ordering)
                  (if length (sr_scores summary_value) > max_scores
                   then length (sr_scores summary_value) else max_scores) of
             Inl err \<Rightarrow> Inl err
           | Inr (ds, columns, m) \<Rightarrow> Inr ((summary_key, d) # ds, columns, m)))"

text \<open>The body of the loop over the scenarios, after the test for an empty table (lines 877-957).\<close>

definition summary_tables ::
  "ctx \<Rightarrow> string \<Rightarrow> (string \<times> summary_row) list \<Rightarrow> py_error + uploader_item list" where
  "summary_tables c sk rows =
     (case reduce_rows rows
             [''ligand'', ''collection_key'', ''scenario'', ''score_average'', ''score_min''] 0 of
        Inl err \<Rightarrow> Inl err
      | Inr (ds, csv_ordering, max_scores) \<Rightarrow>
          Inr ((if ''parquet'' \<in> set (summary_formats (main_config c))
                then [upload c (Some sk) ''parquet'' ''parquet'' (Summary_parquet ds)] else [])
               @ (if ''csv.gz'' \<in> set (summary_formats (main_config c))
                  then (let columns = csv_ordering
                              @ map (\<lambda>index. ''score_'' @ str_nat index) [0..<max_scores]
                        in [upload c (Some sk) ''csv'' ''csv.gz''
                              (Summary_csv columns
                                 (map (\<lambda>(summary_key, d). map (map_of d) columns) ds))])
                  else [])))"

text \<open>
  \<^verbatim>\<open>generate_summary_file\<close> (lines 870-957), over the scenarios still to visit: the items
  put on the upload queue, and the exception that ended the function if there is one.
  The first scenario without rows ends the loop (\<^verbatim>\<open>break\<close>, line 875).
\<close>

fun generate_summary_file ::
  "ctx \<Rightarrow> (string \<times> (string \<times> summary_row) list) list \<Rightarrow> scenario list
     \<Rightarrow> uploader_item list \<times> py_error option" where
  "generate_summary_file c sd [] = ([], None)"
| "generate_summary_file c sd (s # rest) =
     (case map_of sd (sc_key s) of
        None \<Rightarrow> ([], Some KeyError)
      | Some rows \<Rightarrow>
          if length rows = 0 then ([], None)
          else
            (case summary_tables c (sc_key s) rows of
               Inl err \<Rightarrow> ([], Some err)
             | Inr ups \<Rightarrow>
                 (case generate_summary_file c sd rest of
                    (ups', err) \<Rightarrow> (ups @ ups', err))))"

text \<open>
  \<^verbatim>\<open>summary_process\<close> (lines 675-800) for the items received before the terminating
  sentinel: the exception that ends the loop, or the final state with the items put on
  the upload queue and the exception raised while the reports are written, if any.
  \<open>disk\<close> is the file system once the scenario directories are made (lines 703-704).
\<close>

definition scenario_directory :: "ctx \<Rightarrow> (string \<times> string) list" where
  "scenario_directory c =
     fold (\<lambda>s dirs. AList.update (sc_key s)
                       (ctx_temp_dir c @ ''/output/'' @ sc_key s @ ''/'' @ subjob_id c) dirs)
       (docking_scenarios (main_config c)) []"

definition summary_finish ::
  "ctx \<Rightarrow> 'fs summary_state \<Rightarrow> uploader_item list \<times> py_error option" where
  "summary_finish c st =
     (let overview_upload = generate_overview_file c (overview st) in
      if dockings_processed st > 0 then
        (case generate_summary_file c (summary_data st) (docking_scenarios (main_config c)) of
           (ups, Some err) \<Rightarrow> (overview_upload # ups, Some err)
         | (ups, None) \<Rightarrow>
             (overview_upload # ups @ generate_output_archives c (scenario_directory c), None))
      else ([overview_upload], None))"

definition summary_process ::
  "'fs os \<Rightarrow> ctx \<Rightarrow> 'fs \<Rightarrow> summary_item list
     \<Rightarrow> py_error + ('fs summary_state \<times> uploader_item list \<times> py_error option)" where
  "summary_process os c disk received =
     (case summary_loop os (scenario_directory c)
             (summary_init (map sc_key (docking_scenarios (main_config c))) disk) received of
        Inl err \<Rightarrow> Inl err
      | Inr st \<Rightarrow> Inr (st, summary_finish c st))"

section \<open>The unpacker: \<^verbatim>\<open>untar\<close> and \<^verbatim>\<open>unpack_item\<close>\<close>

text \<open>
  A string is a list of characters with the codes 0 to 255. The characters among them for
  which \<^verbatim>\<open>str.isspace\<close> holds, which are also those that \<^verbatim>\<open>\s\<close> matches and that \<^verbatim>\<open>int\<close> and
  \<^verbatim>\<open>strip\<close> drop, have the codes 9 to 13, 28 to 32, 133 (next line) and 160 (no-break
  space). \<open>strip\<close> is \<^verbatim>\<open>s.strip()\<close> and \<open>split_ws\<close> is \<^verbatim>\<open>s.split()\<close>.
\<close>

definition is_space :: "char \<Rightarrow> bool" where
  "is_space ch \<longleftrightarrow>
     (let n = (of_char ch :: nat)
      in (9 \<le> n \<and> n \<le> 13) \<or> (28 \<le> n \<and> n \<le> 32) \<or> n = 133 \<or> n = 160)"

definition strip :: "string \<Rightarrow> string" where
  "strip s = rev (dropWhile is_space (rev (dropWhile is_space s)))"

fun split_ws :: "string \<Rightarrow> string list" where
  "split_ws [] = []"
| "split_ws (c # cs) =
     (if is_space c then split_ws cs
      else (case split_ws cs of
              [] \<Rightarrow> [[c]]
            | p # ps \<Rightarrow>
                (case cs of
                   [] \<Rightarrow> [[c]]
                 | d # ds \<Rightarrow> if is_space d then [c] # p # ps else (c # p) # ps)))"

text \<open>
  \<^verbatim>\<open>int(s)\<close> for a string: optional white space around, an optional sign, decimal digits
  with single underscores between them; \<open>None\<close> is \<^verbatim>\<open>ValueError\<close>.
\<close>

definition is_digit :: "char \<Rightarrow> bool" where
  "is_digit ch \<longleftrightarrow> ch \<in> set ''0123456789''"

definition digit_value :: "char \<Rightarrow> int" where
  "digit_value ch = int (of_char ch) - 48"

fun digits_ok :: "string \<Rightarrow> bool" where
  "digits_ok [] = False"
| "digits_ok [c] = is_digit c"
| "digits_ok (c # d # cs) =
     (is_digit c \<and> (if d = CHR ''_'' then digits_ok cs else digits_ok (d # cs)))"

definition py_int :: "string \<Rightarrow> int option" where
  "py_int s =
     (let t = strip s;
          (negative, body) =
             (case t of
                c # cs \<Rightarrow> if c = CHR ''-'' then (True, cs)
                          else if c = CHR ''+'' then (False, cs) else (False, t)
              | [] \<Rightarrow> (False, t))
      in if digits_ok body then
           (let v = foldl (\<lambda>a ch. 10 * a + digit_value ch) 0 (filter is_digit body)
            in Some (if negative then - v else v))
         else None)"

text \<open>\<^verbatim>\<open>os.path.join\<close> of two components.\<close>

definition path_join :: "string \<Rightarrow> string \<Rightarrow> string" where
  "path_join a b =
     (if b \<noteq> [] \<and> hd b = CHR ''/'' then b
      else if a = [] \<or> last a = CHR ''/'' then a @ b
      else a @ ''/'' @ b)"

text \<open>
  \<^verbatim>\<open>item['collection']\<close>, an entry of the subjob's collections: its number and name
  (the parts of the collection key), the selection mode, the prescreen cutoff and the
  names of the ligands to keep in the mode \<^verbatim>\<open>named\<close>.
\<close>

record collection =
  collection_number :: string
  collection_name :: string
  mode :: string
  prescreen_ligands_per_tranche :: int
  named_ligands :: "string list"
  dockings :: int

text \<open>The item of the download and unpack queues.\<close>

record download_item =
  item_collection_key :: string
  item_collection :: collection
  ext :: string
  item_temp_dir :: string
  local_path :: string

text \<open>An entry of the dictionary of ligands built by \<^verbatim>\<open>unpack_item\<close>.\<close>

record ligand =
  lig_path :: string
  lig_base_collection_key :: string
  lig_collection_key :: string

text \<open>
  The item of the collection queue: \<^verbatim>\<open>item['ligands']\<close> is what \<^verbatim>\<open>unpack_item\<close> returned,
  \<open>None\<close> for Python's \<^verbatim>\<open>None\<close>.
\<close>

record collection_item = download_item +
  ligands :: "(string \<times> ligand) list option"

text \<open>
  What \<^verbatim>\<open>unpack_item\<close> finds in the file system: the members of the archive at
  \<^verbatim>\<open>local_path\<close> as pairs of name and \<^verbatim>\<open>isdir()\<close>, or \<open>None\<close> when \<^verbatim>\<open>tarfile\<close> raises while
  the archive is opened, listed or extracted; and the lines of the extracted file
  \<^verbatim>\<open>.listing\<close>, or \<open>None\<close> when it cannot be opened.
\<close>

record archive_files =
  tar_members :: "(string \<times> bool) list option"
  listing :: "string list option"

text \<open>\<^verbatim>\<open>name.split("/", 1)\<close>: the parts before and after the first slash, if there is one.\<close>

fun split_first :: "char \<Rightarrow> string \<Rightarrow> (string \<times> string) option" where
  "split_first sep [] = None"
| "split_first sep (c # cs) =
     (if c = sep then Some ([], cs)
      else (case split_first sep cs of None \<Rightarrow> None | Some (a, b) \<Rightarrow> Some (c # a, b)))"

text \<open>
  The loop over the members of the archive (lines 201-214); \<open>None\<close> when a member name
  has no slash, which raises \<^verbatim>\<open>ValueError\<close> inside the \<^verbatim>\<open>try\<close>. The ligand name
  \<^verbatim>\<open>ligand.split(".")[0]\<close> is the part of the file name before its first dot.
\<close>

fun member_ligands ::
  "download_item \<Rightarrow> (string \<times> bool) list \<Rightarrow> (string \<times> ligand) list
     \<Rightarrow> (string \<times> ligand) list option" where
  "member_ligands item [] ligs = Some ligs"
| "member_ligands item ((name, isdir) # rest) ligs =
     (if isdir then member_ligands item rest ligs
      else (case split_first CHR ''/'' name of
              None \<Rightarrow> None
            | Some (top_dir, lig) \<Rightarrow>
                if lig = ''.listing'' then member_ligands item rest ligs
                else member_ligands item rest
                       (AList.update (takeWhile (\<lambda>ch. ch \<noteq> CHR ''.'') lig)
                          \<lparr>lig_path = path_join
                                        (path_join (item_temp_dir item)
                                           (collection_number (item_collection item))) lig,
                           lig_base_collection_key = item_collection_key item,
                           lig_collection_key = item_collection_key item\<rparr> ligs)))"

text \<open>One line of the listing (lines 230-232): collection key, ligand name, rank index.\<close>

definition listing_row :: "string \<Rightarrow> py_error + (string \<times> string \<times> int)" where
  "listing_row line =
     (case split_on CHR '','' (strip line) of
        [screen_collection_key, screen_ligand_name, screen_index] \<Rightarrow>
          (case py_int screen_index of
             None \<Rightarrow> Inl ValueError
           | Some i \<Rightarrow> Inr (screen_collection_key, screen_ligand_name, i))
      | _ \<Rightarrow> Inl ValueError)"

text \<open>The loop over the lines of the listing (lines 229-238).\<close>

fun prescreen_select ::
  "int \<Rightarrow> (string \<times> ligand) list \<Rightarrow> string list \<Rightarrow> (string \<times> ligand) list
     \<Rightarrow> py_error + (string \<times> ligand) list" where
  "prescreen_select cutoff ligs [] prescreen_ligands = Inr prescreen_ligands"
| "prescreen_select cutoff ligs (line # rest) prescreen_ligands =
     (case listing_row line of
        Inl err \<Rightarrow> Inl err
      | Inr (screen_collection_key, screen_ligand_name, screen_index) \<Rightarrow>
          if screen_index \<ge> cutoff then prescreen_select cutoff ligs rest prescreen_ligands
          else
            (case map_of ligs screen_ligand_name of
               None \<Rightarrow> Inl KeyError
             | Some l \<Rightarrow>
                 prescreen_select
                   cutoff
                   (AList.update screen_ligand_name
                      (l\<lparr>lig_collection_key := screen_collection_key\<rparr>) ligs)
                   rest
                   (AList.update screen_ligand_name
                      (l\<lparr>lig_collection_key := screen_collection_key\<rparr>) prescreen_ligands)))"

text \<open>The loop of the mode \<^verbatim>\<open>named\<close> (lines 243-244).\<close>

fun named_select ::
  "(string \<times> ligand) list \<Rightarrow> string list \<Rightarrow> (string \<times> ligand) list
     \<Rightarrow> py_error + (string \<times> ligand) list" where
  "named_select ligs [] select_ligands = Inr select_ligands"
| "named_select ligs (ligand_name # rest) select_ligands =
     (case map_of ligs ligand_name of
        None \<Rightarrow> Inl KeyError
      | Some l \<Rightarrow> named_select ligs rest (AList.update ligand_name l select_ligands))"

text \<open>
  \<^verbatim>\<open>unpack_item\<close> (lines 194-247): \<open>Inr None\<close> is the return of \<^verbatim>\<open>None\<close> after the archive
  failed, \<open>Inl\<close> an exception raised outside the \<^verbatim>\<open>try\<close>.
\<close>

definition unpack_item ::
  "download_item \<Rightarrow> archive_files \<Rightarrow> py_error + (string \<times> ligand) list option" where
  "unpack_item item files =
     (case tar_members files of
        None \<Rightarrow> Inr None
      | Some members \<Rightarrow>
          (case member_ligands item members [] of
             None \<Rightarrow> Inr None
           | Some ligs \<Rightarrow>
               if mode (item_collection item) = ''prescreen_mode'' then
                 (case listing files of
                    None \<Rightarrow> Inl FileNotFoundError
                  | Some lines \<Rightarrow>
                      (case prescreen_select
                              (prescreen_ligands_per_tranche (item_collection item))
                              ligs lines [] of
                         Inl err \<Rightarrow> Inl err
                       | Inr prescreen_ligands \<Rightarrow> Inr (Some prescreen_ligands)))
               else if mode (item_collection item) = ''named'' then
                 (case named_select ligs (named_ligands (item_collection item)) [] of
                    Inl err \<Rightarrow> Inl err
                  | Inr select_ligands \<Rightarrow> Inr (Some select_ligands))
               else Inr (Some ligs)))"

text \<open>
  The body of the loop of \<^verbatim>\<open>untar\<close> (lines 184-190) for one item: the item put on the
  collection queue, also when \<^verbatim>\<open>unpack_item\<close> returned \<^verbatim>\<open>None\<close>.
\<close>

definition untar :: "download_item \<Rightarrow> archive_files \<Rightarrow> py_error + collection_item" where
  "untar item files =
     (case unpack_item item files of
        Inl err \<Rightarrow> Inl err
      | Inr ligs \<Rightarrow> Inr (download_item.extend item \<lparr>ligands = ligs\<rparr>))"

section \<open>The validator and dispatcher: \<^verbatim>\<open>collection_process\<close>\<close>

text \<open>
  \<^verbatim>\<open>re.search(r'(?P<letters>\s+(B|Si|Sn)\s+)', line)\<close>: the text of the leftmost match, a
  run of white space, one of the three element symbols and a run of white space; both
  runs are maximal, as \<^verbatim>\<open>\s+\<close> is greedy and a symbol cannot start with white space.
\<close>

definition element_match :: "string \<Rightarrow> string option" where
  "element_match s =
     (let symbol =
            (if take 1 s = ''B'' then Some ''B''
             else if take 2 s = ''Si'' then Some ''Si''
             else if take 2 s = ''Sn'' then Some ''Sn''
             else None)
      in case symbol of
           None \<Rightarrow> None
         | Some el \<Rightarrow>
             (let rest = drop (length el) s in
              if rest \<noteq> [] \<and> is_space (hd rest) then Some (el @ takeWhile is_space rest)
              else None))"

fun letters_match :: "string \<Rightarrow> string option" where
  "letters_match [] = None"
| "letters_match (c # cs) =
     (if is_space c then
        (case element_match (dropWhile is_space cs) of
           Some m \<Rightarrow> Some (c # takeWhile is_space cs @ m)
         | None \<Rightarrow> letters_match cs)
      else letters_match cs)"

text \<open>\<^verbatim>\<open>re.search(pat, s)\<close> for a literal pattern: the text after its leftmost occurrence.\<close>

fun after_first :: "string \<Rightarrow> string \<Rightarrow> string option" where
  "after_first pat [] = (if pat = [] then Some [] else None)"
| "after_first pat (c # cs) =
     (if take (length pat) (c # cs) = pat then Some (drop (length pat) (c # cs))
      else after_first pat cs)"

text \<open>\<^verbatim>\<open>sep.join(parts)\<close>.\<close>

fun join_with :: "string \<Rightarrow> string list \<Rightarrow> string" where
  "join_with sep [] = []"
| "join_with sep [p] = p"
| "join_with sep (p # q # ps) = p @ sep @ join_with sep (q # ps)"

text \<open>
  The outcome of the scan of one ligand file (lines 290-345): the ligand passes, it is
  skipped with the reason put into the log, the worker returns because the user's
  regular expression does not compile (\<^verbatim>\<open>return None\<close>, line 333), or an exception is raised.
\<close>

datatype scan_result = Passed | Skipped string | Worker_returns | Scan_raises py_error

fun scan_lines :: "main_config \<Rightarrow> string list \<Rightarrow> string list \<Rightarrow> scan_result" where
  "scan_lines cfg [] coords = Passed"
| "scan_lines cfg (line # rest) coords =
     (case (if run_atom_check cfg = 1 then letters_match line else None) of
        Some letters \<Rightarrow> Skipped (''ligand includes elements: '' @ letters @ '')'')
      | None \<Rightarrow>
          (let coord_str = join_with '':'' (take 3 (drop 5 (split_ws line)));
               is_atom = (take 4 line = ''ATOM'')
           in if is_atom \<and> coord_str \<in> set coords then Skipped ''duplicate coordinates''
              else
                (let coords' = (if is_atom then coords @ [coord_str] else coords) in
                 if dynamic_tranche_filtering cfg = 1 \<and> after_first ''Tranche:'' line \<noteq> None
                 then
                   (case drop 2 (split_ws line) of
                      [] \<Rightarrow> Scan_raises IndexError
                    | part # _ \<Rightarrow>
                        (case dynamic_tranche_filtering_regex cfg of
                           None \<Rightarrow> Worker_returns
                         | Some search \<Rightarrow>
                             if \<not> search (strip part) then Skipped ''dynamic tranche filtering''
                             else scan_lines cfg rest coords'))
                 else scan_lines cfg rest coords')))"

text \<open>
  \<^verbatim>\<open>get_attrs\<close> (lines 386-418). The three patterns end in \<^verbatim>\<open>\s*(?P<..>.*)$\<close>, so the group
  is the text after the leftmost occurrence of the literal part, without leading white
  space.
\<close>

definition attr_group :: "string \<Rightarrow> string \<Rightarrow> string option" where
  "attr_group pat line = map_option (dropWhile is_space) (after_first pat line)"

fun get_attrs_lines ::
  "nat \<Rightarrow> string list \<Rightarrow> (string \<times> string) list \<Rightarrow> nat \<Rightarrow> (string \<times> string) list" where
  "get_attrs_lines wanted [] attributes attributes_found = attributes"
| "get_attrs_lines wanted (raw # rest) attributes attributes_found =
     (let line = strip raw;
          (a1, f1) = (case attr_group ''SMILES_current:'' line of
                        Some smi \<Rightarrow> (AList.update ''smi'' smi attributes, attributes_found + 1)
                      | None \<Rightarrow> (attributes, attributes_found));
          (a2, f2) = (case attr_group ''SMILES:'' line of
                        Some smi \<Rightarrow> (AList.update ''smi'' smi a1, f1 + 1)
                      | None \<Rightarrow> (a1, f1));
          (a3, f3) = (case attr_group ''* Heavy atom count:'' line of
                        Some hacount \<Rightarrow> (AList.update ''heavy_atom_count'' hacount a2, f2 + 1)
                      | None \<Rightarrow> (a2, f2))
      in if f3 \<ge> wanted then a3 else get_attrs_lines wanted rest a3 f3)"

definition get_attrs :: "string \<Rightarrow> string list \<Rightarrow> string list \<Rightarrow> (string \<times> string) list" where
  "get_attrs ligand_format lines attr_keys =
     (let attributes = fold (\<lambda>key a. AList.update key ''N/A'' a) attr_keys [] in
      if ligand_format \<in> set [''pdbqt'', ''mol2'', ''pdb'', ''sdf'']
      then get_attrs_lines (length attr_keys) lines attributes 0
      else attributes)"

text \<open>
  \<^verbatim>\<open>submit_ligand_for_docking\<close> (lines 421-449): the items put on the docking queue, one for
  every scenario and every replica index in \<^verbatim>\<open>range(scenario['replicas'])\<close>.
\<close>

definition submit_ligand_for_docking ::
  "ctx \<Rightarrow> string \<Rightarrow> string \<Rightarrow> string \<Rightarrow> string \<Rightarrow> (string \<times> string) list \<Rightarrow> string
     \<Rightarrow> docking_task list" where
  "submit_ligand_for_docking c ligand_name lpath ckey base_ckey ligand_attrs tmp =
     concat (map (\<lambda>s.
       map (\<lambda>replica_index.
              \<lparr>ligand_key = ligand_name,
               ligand_path = lpath,
               scenario_key = sc_key s,
               collection_key = ckey,
               base_collection_key = base_ckey,
               config_path = sc_config s,
               program = sc_program s,
               program_long = sc_program_long s,
               input_files_dir =
                 path_join (path_join (ctx_temp_dir c) ''vf_input'') ''input-files'',
               timeout = program_timeout (main_config c),
               tools_path = ctx_tools_path c,
               threads_per_docking = cfg_threads_per_docking (main_config c),
               temp_dir = tmp,
               attrs = ligand_attrs,
               output_dir = tmp @ ''/output/'' @ sc_key s @ ''/'' @ ligand_name @ ''/''
                              @ str_nat replica_index\<rparr>)
         [0..<nat (sc_replicas s)])
       (docking_scenarios (main_config c)))"

text \<open>The number of dockings run for one ligand (lines 267-274).\<close>

definition completions_per_ligand :: "ctx \<Rightarrow> int" where
  "completions_per_ligand c =
     fold (\<lambda>s n. n + int (length [0..<nat (sc_replicas s)])) (docking_scenarios (main_config c)) 0"

text \<open>
  How the handling of one item of the collection queue ends: the marker was put on the
  summary queue and the loop goes on (\<open>Done\<close>), the worker function returned, or an
  exception left it.
\<close>

datatype validator_outcome = Done | Returned | Raised py_error

text \<open>
  The loop over the ligands of an item (lines 284-367) and the marker after it (lines
  374-381): the items put on the docking queue and on the summary queue, and how the
  handling ended. \<open>ligand_files\<close> gives the lines of the file at a path, \<open>None\<close> if it
  cannot be opened.
\<close>

fun process_ligands ::
  "ctx \<Rightarrow> collection_item \<Rightarrow> (string \<rightharpoonup> string list) \<Rightarrow> (string \<times> ligand) list \<Rightarrow> int
     \<Rightarrow> docking_task list \<times> summary_item list \<times> validator_outcome" where
  "process_ligands c item ligand_files [] expected_ligands =
     ([], [Delete (item_temp_dir item) (item_collection_key item) expected_ligands], Done)"
| "process_ligands c item ligand_files ((lkey, lig) # rest) expected_ligands =
     (case ligand_files (lig_path lig) of
        None \<Rightarrow> ([], [], Raised FileNotFoundError)
      | Some lines \<Rightarrow>
          (case scan_lines (main_config c) lines [] of
             Passed \<Rightarrow>
               (let ligand_attrs = get_attrs (ligand_library_format (main_config c)) lines
                                     (print_attrs_in_summary (main_config c));
                    submitted = submit_ligand_for_docking c lkey (lig_path lig)
                                  (lig_collection_key lig) (lig_base_collection_key lig)
                                  ligand_attrs (item_temp_dir item)
                in case process_ligands c item ligand_files rest
                          (expected_ligands + completions_per_ligand c) of
                     (tasks, events, outcome) \<Rightarrow> (submitted @ tasks, events, outcome))
           | Skipped skip_reason_json \<Rightarrow>
               (case process_ligands c item ligand_files rest expected_ligands of
                  (tasks, events, outcome) \<Rightarrow>
                    (tasks,
                     Skip \<lparr>log_base_collection_key = lig_base_collection_key lig,
                           log_collection_key = lig_collection_key lig,
                           log_ligand_key = lkey,
                           log_reason = skip_reason_json\<rparr> # events,
                     outcome))
           | Worker_returns \<Rightarrow> ([], [], Returned)
           | Scan_raises err \<Rightarrow> ([], [], Raised err)))"

text \<open>
  The body of the loop of \<^verbatim>\<open>collection_process\<close> (lines 266-381) for one item. Iterating
  over \<^verbatim>\<open>item['ligands']\<close> raises \<^verbatim>\<open>TypeError\<close> when it is \<^verbatim>\<open>None\<close>.
\<close>

definition collection_process ::
  "ctx \<Rightarrow> collection_item \<Rightarrow> (string \<rightharpoonup> string list)
     \<Rightarrow> docking_task list \<times> summary_item list \<times> validator_outcome" where
  "collection_process c item ligand_files =
     (case ligands item of
        None \<Rightarrow> ([], [], Raised TypeError)
      | Some ligs \<Rightarrow> process_ligands c item ligand_files ligs 0)"

section \<open>The executor: \<^verbatim>\<open>docking_process_batch\<close>\<close>

text \<open>
  What \<^verbatim>\<open>subprocess.run\<close> does with a command: it raises \<^verbatim>\<open>TimeoutExpired\<close>, it raises
  another exception (the program cannot be started), or it returns a return code with the
  captured output.
\<close>

datatype proc_result = Timed_out | Spawn_error py_error | Completed int string string

text \<open>
  What a completion function of a backend leaves in the item: the status, the score if
  it sets one, and the reason it logs.
\<close>

record parse_outcome =
  po_status :: string
  po_score :: "real option"
  po_reason :: string

text \<open>
  An entry of the table \<^verbatim>\<open>DOCKING_PROGRAMS\<close>: the functions under \<^verbatim>\<open>'start'\<close> and \<^verbatim>\<open>'end'\<close>, if
  the keys are there, and the execution model under \<^verbatim>\<open>'ligands'\<close>. The start function
  returns the command or raises; the completion function sets the score and the status
  of the item, or raises. Both belong to the backends and are parameters here.
\<close>

record backend =
  be_start :: "(docking_item \<Rightarrow> py_error + string list) option"
  be_end :: "(docking_item \<Rightarrow> proc_result \<Rightarrow> py_error + parse_outcome) option"
  be_ligands :: string

text \<open>
  The surroundings of a worker: the table of programs, the process runner (command,
  working directory, timeout) and the identifiers \<^verbatim>\<open>uuid.uuid4()\<close> returns, by the number of
  calls made before.
\<close>

record world =
  DOCKING_PROGRAMS :: "string \<rightharpoonup> backend"
  subprocess_run :: "string list \<Rightarrow> string \<Rightarrow> int \<Rightarrow> proc_result"
  uuid4 :: "nat \<Rightarrow> string"

text \<open>\<^verbatim>\<open>program_runstring_array\<close> (lines 1162-1173) and \<^verbatim>\<open>process_docking_completion\<close>
  (lines 1138-1146).\<close>

definition program_runstring_array :: "world \<Rightarrow> docking_item \<Rightarrow> py_error + string list" where
  "program_runstring_array w task =
     (case DOCKING_PROGRAMS w (program task) of
        None \<Rightarrow> Inl RuntimeError
      | Some b \<Rightarrow>
          (case be_start b of
             None \<Rightarrow> Inl RuntimeError
           | Some start \<Rightarrow> start task))"

definition process_docking_completion ::
  "world \<Rightarrow> docking_item \<Rightarrow> proc_result \<Rightarrow> py_error + docking_item" where
  "process_docking_completion w item ret =
     (case DOCKING_PROGRAMS w (program item) of
        None \<Rightarrow> Inl RuntimeError
      | Some b \<Rightarrow>
          (case be_end b of
             None \<Rightarrow> Inl RuntimeError
           | Some finish \<Rightarrow>
               (case finish (item\<lparr>status := ''failed''\<rparr>) ret of
                  Inl err \<Rightarrow> Inl err
                | Inr po \<Rightarrow>
                    Inr (item\<lparr>status := po_status po,
                              score := po_score po,
                              log := (log item)\<lparr>log_reason := po_reason po\<rparr>\<rparr>))))"

text \<open>The path of the run directory for an identifier (line 504).\<close>

definition run_dir :: "string \<Rightarrow> string \<Rightarrow> string" where
  "run_dir tmp u = tmp @ ''/run/'' @ u"

text \<open>
  \<^verbatim>\<open>docking_process_setup_common\<close> for an item of the single model (lines 498-516): the
  identifier is drawn, the run directory is created and the item gets its keys. The set
  \<open>fs\<close> holds the run directories that exist.
\<close>

definition docking_process_setup_common ::
  "world \<Rightarrow> nat \<Rightarrow> string set \<Rightarrow> docking_item \<Rightarrow> string \<Rightarrow> string set \<times> docking_item" where
  "docking_process_setup_common w drawn fs item tmp =
     (insert (run_dir tmp (uuid4 w drawn)) fs,
      item\<lparr>uuid := Some (uuid4 w drawn),
           tmp_run_dir := Some (run_dir tmp (uuid4 w drawn)),
           log_path := output_dir item @ ''/stdout''\<rparr>)"

text \<open>\<^verbatim>\<open>docking_process_clean_common\<close> (lines 519-521).\<close>

definition docking_process_clean_common :: "string set \<Rightarrow> docking_item \<Rightarrow> py_error + string set" where
  "docking_process_clean_common fs item =
     (case tmp_run_dir item of
        None \<Rightarrow> Inl KeyError
      | Some d \<Rightarrow> Inr (fs - {d}))"

text \<open>
  The body of the loop of the single model for one item (lines 548-587): the run
  directories after it, and the item with its outcome or the exception that leaves
  \<^verbatim>\<open>docking_process_batch\<close>.
\<close>

definition run_single ::
  "world \<Rightarrow> nat \<Rightarrow> string set \<Rightarrow> docking_item \<Rightarrow> string
     \<Rightarrow> string set \<times> (py_error + docking_item)" where
  "run_single w drawn fs item0 tmp =
     (case docking_process_setup_common w drawn fs item0 tmp of
        (fs1, item) \<Rightarrow>
          (case program_runstring_array w item of
             Inl err \<Rightarrow> (fs1, Inl err)
           | Inr cmd \<Rightarrow>
               (case subprocess_run w cmd
                       (run_dir tmp (uuid4 w drawn) @ ''/input-files'') (timeout item) of
                  Timed_out \<Rightarrow>
                    (case docking_process_clean_common fs1
                            (item\<lparr>log := (log item)
                                     \<lparr>log_reason := ''timeout on '' @ ligand_key item\<rparr>\<rparr>) of
                       Inl err \<Rightarrow> (fs1, Inl err)
                     | Inr fs2 \<Rightarrow>
                         (fs2, Inr (item\<lparr>log := (log item)
                                       \<lparr>log_reason := ''timeout on '' @ ligand_key item\<rparr>\<rparr>)))
                | Spawn_error err \<Rightarrow> (fs1, Inl err)
                | Completed returncode out err \<Rightarrow>
                    (case (if returncode = 0
                           then process_docking_completion w item (Completed returncode out err)
                           else Inr (item\<lparr>log := (log item)
                                       \<lparr>log_reason := ''Non zero return code for ''
                                          @ collection_key item @ '' '' @ ligand_key item
                                          @ '' '' @ scenario_key item\<rparr>\<rparr>)) of
                       Inl e \<Rightarrow> (fs1, Inl e)
                     | Inr item' \<Rightarrow>
                         (case docking_process_clean_common fs1 item' of
                            Inl e \<Rightarrow> (fs1, Inl e)
                          | Inr fs2 \<Rightarrow> (fs2, Inr item'))))))"

fun run_single_items ::
  "world \<Rightarrow> nat \<Rightarrow> string set \<Rightarrow> docking_item list \<Rightarrow> string
     \<Rightarrow> string set \<times> (py_error + docking_item list)" where
  "run_single_items w drawn fs [] tmp = (fs, Inr [])"
| "run_single_items w drawn fs (item # rest) tmp =
     (case run_single w drawn fs item tmp of
        (fs1, Inl err) \<Rightarrow> (fs1, Inl err)
      | (fs1, Inr item') \<Rightarrow>
          (case run_single_items w (Suc drawn) fs1 rest tmp of
             (fs2, Inl err) \<Rightarrow> (fs2, Inl err)
           | (fs2, Inr rest') \<Rightarrow> (fs2, Inr (item' # rest'))))"

text \<open>The keys every item gets before the batch runs (lines 535-544).\<close>

definition prepare_item :: "docking_task \<Rightarrow> docking_item" where
  "prepare_item t =
     docking_task.extend t
       \<lparr>output_path = output_dir t @ ''/output'',
        status = ''failed'',
        log_path = output_dir t @ ''/stdout'',
        log = \<lparr>log_base_collection_key = base_collection_key t,
               log_collection_key = collection_key t,
               log_ligand_key = ligand_key t,
               log_reason = ''''\<rparr>,
        score = None, uuid = None, tmp_run_dir = None\<rparr>"

text \<open>
  \<^verbatim>\<open>docking_process_batch\<close> (lines 523-646), with \<open>drawn\<close> identifiers drawn before: the run
  directories after the call and \<open>Inr None\<close> for an empty batch, \<open>Inr (Some b)\<close> for the
  batch put on the summary queue, or the exception that leaves the function. In the batch
  model \<^verbatim>\<open>docking_process_setup_common\<close> is called with the dictionary of the batch: it
  creates the run directory (line 505) and then raises \<^verbatim>\<open>KeyError\<close>, because that dictionary
  has no key \<^verbatim>\<open>input_files_dir\<close> (line 510).
\<close>

definition docking_process_batch ::
  "world \<Rightarrow> nat \<Rightarrow> string set \<Rightarrow> scenario \<Rightarrow> docking_task list \<Rightarrow> string
     \<Rightarrow> string set \<times> (py_error + batched_item option)" where
  "docking_process_batch w drawn fs s tasks tmp =
     (if length tasks = 0 then (fs, Inr None)
      else
        (case DOCKING_PROGRAMS w (sc_program s) of
           None \<Rightarrow> (fs, Inl KeyError)
         | Some b \<Rightarrow>
             if be_ligands b = ''single'' then
               (case run_single_items w drawn fs (map prepare_item tasks) tmp of
                  (fs', Inl err) \<Rightarrow> (fs', Inl err)
                | (fs', Inr done_items) \<Rightarrow>
                    (fs', Inr (Some \<lparr>items = done_items, batch_program = sc_program s,
                                     execution_type = be_ligands b,
                                     batch_scenario_key = sc_key s,
                                     batch_uuid = None, batch_output_dir = None\<rparr>)))
             else if be_ligands b = ''batch'' then
               (insert (run_dir tmp (uuid4 w drawn)) fs, Inl KeyError)
             else (fs, Inl RuntimeError)))"

section \<open>Notions used to state the properties\<close>

subsection \<open>Events of one collection and the completion trace\<close>

definition event_items :: "summary_item \<Rightarrow> docking_item list" where
  "event_items item = (case item of Docking_complete b \<Rightarrow> items b | _ \<Rightarrow> [])"

text \<open>The docking outcomes delivered for base collection key \<open>k\<close>, over all batches.\<close>

definition outcomes_for :: "string \<Rightarrow> summary_item list \<Rightarrow> docking_item list" where
  "outcomes_for k evs = filter (\<lambda>i. base_collection_key i = k) (concat (map event_items evs))"

text \<open>The delete markers for \<open>k\<close>: their directory and expected count.\<close>

fun markers_for :: "string \<Rightarrow> summary_item list \<Rightarrow> (string \<times> int) list" where
  "markers_for k [] = []"
| "markers_for k (Delete tmp key n # evs) =
     (if key = k then (tmp, n) # markers_for k evs else markers_for k evs)"
| "markers_for k (_ # evs) = markers_for k evs"

text \<open>The entries popped for \<open>k\<close>: one for each time the completion branch ran for \<open>k\<close>.\<close>

definition popped :: "string \<Rightarrow> 'fs summary_state \<Rightarrow> completion list" where
  "popped k st = map snd (filter (\<lambda>p. fst p = k) (completed st))"

text \<open>The file system calls made for the collection \<open>k\<close>, in order.\<close>

definition calls_for :: "string \<Rightarrow> 'fs summary_state \<Rightarrow> fs_call list" where
  "calls_for k st = map snd (filter (\<lambda>p. fst p = Some k) (effects st))"

text \<open>
  The calls of one completion of a collection with directory \<open>tmp\<close>, when the listing of
  the output directory of the \<open>i\<close>-th scenario gave the entries \<open>ess ! i\<close>: for every
  scenario the listing and the move of each entry into the scenario's final directory,
  then the removal of \<open>tmp\<close>.
\<close>

definition completion_calls ::
  "string \<Rightarrow> (string \<times> string) list \<Rightarrow> string list list \<Rightarrow> fs_call list" where
  "completion_calls tmp dirs ess =
     concat (map (\<lambda>((sk, dest), es).
                    Iterdir (tmp @ ''/output/'' @ sk) es
                    # map (\<lambda>dir_file. Move dir_file (dest @ ''/'')) es)
              (zip dirs ess))
     @ [Rmtree tmp]"

text \<open>
  The state of the entry of \<open>k\<close> after \<open>c\<close> outcomes for \<open>k\<close>, with (\<open>d\<close>) or without
  its marker \<open>(tmp, n)\<close>.
\<close>

definition tracked ::
  "(string \<times> string) list \<Rightarrow> string \<Rightarrow> int \<Rightarrow> string \<Rightarrow> bool \<Rightarrow> nat
     \<Rightarrow> 'fs summary_state \<Rightarrow> bool" where
  "tracked dirs k n tmp d c st \<longleftrightarrow>
     (if d then
        (if int c = n then
           collection_completions st k = None
           \<and> popped k st = [\<lparr>expected_completions = n, current_completions = n, cc_temp_dir = tmp\<rparr>]
           \<and> (\<exists>ess. length ess = length dirs \<and> calls_for k st = completion_calls tmp dirs ess)
         else
           collection_completions st k
             = Some \<lparr>expected_completions = n, current_completions = int c, cc_temp_dir = tmp\<rparr>
           \<and> popped k st = [] \<and> calls_for k st = [])
      else
        popped k st = [] \<and> calls_for k st = []
        \<and> (if c = 0 then collection_completions st k = None
           else collection_completions st k
             = Some \<lparr>expected_completions = - 1, current_completions = int c, cc_temp_dir = ''''\<rparr>))"

definition nonneg_current :: "'fs summary_state \<Rightarrow> bool" where
  "nonneg_current st \<longleftrightarrow>
     (\<forall>k e. collection_completions st k = Some e \<longrightarrow> 0 \<le> current_completions e)"

definition waiting :: "string \<Rightarrow> 'fs summary_state \<Rightarrow> bool" where
  "waiting k st \<longleftrightarrow>
     popped k st = [] \<and> calls_for k st = []
     \<and> (\<forall>e. collection_completions st k = Some e
            \<longrightarrow> expected_completions e = - 1 \<and> 1 \<le> current_completions e)"

subsection \<open>The overview counters\<close>

definition statuses_ok :: "summary_item list \<Rightarrow> bool" where
  "statuses_ok evs \<longleftrightarrow>
     (\<forall>ev \<in> set evs. \<forall>i \<in> set (event_items ev).
        status i = ''success'' \<or> status i = ''failed'')"

definition counters_ok :: "overview_data \<Rightarrow> bool" where
  "counters_ok od \<longleftrightarrow>
     (\<exists>s f. map_of (dockings_status od) ''success'' = Some s
        \<and> map_of (dockings_status od) ''failed'' = Some f
        \<and> s + f = total_dockings od)"

subsection \<open>Events the aggregator handles without an exception\<close>

text \<open>
  An outcome is well formed when its status is \<^verbatim>\<open>failed\<close>, or \<^verbatim>\<open>success\<close> with a score and a
  configured scenario; an event when its type is one of the four known ones and, for a
  batch, every outcome is well formed and the execution model is not \<^verbatim>\<open>batch\<close>. \<open>ready\<close> is
  the part of the state the handling relies on, and \<open>calls_return\<close> says that no file
  system call raises.
\<close>

definition item_ok :: "string list \<Rightarrow> docking_item \<Rightarrow> bool" where
  "item_ok keys i \<longleftrightarrow>
     status i = ''failed''
     \<or> (status i = ''success'' \<and> scenario_key i \<in> set keys \<and> score i \<noteq> None)"

definition event_ok :: "string list \<Rightarrow> summary_item \<Rightarrow> bool" where
  "event_ok keys ev =
     (case ev of
        Other t \<Rightarrow> False
      | Docking_complete b \<Rightarrow> list_all (item_ok keys) (items b) \<and> execution_type b \<noteq> ''batch''
      | _ \<Rightarrow> True)"

definition calls_return :: "'fs os \<Rightarrow> bool" where
  "calls_return os \<longleftrightarrow>
     (\<forall>disk p. \<exists>entries. iterdir os disk p = Inr entries)
     \<and> (\<forall>disk src dst. \<exists>disk'. move os disk src dst = Inr disk')
     \<and> (\<forall>disk p. \<exists>disk'. rmtree os disk p = Inr disk')"

definition ready :: "string list \<Rightarrow> 'fs summary_state \<Rightarrow> bool" where
  "ready keys st \<longleftrightarrow>
     map_of (dockings_status (overview st)) ''success'' \<noteq> None
     \<and> map_of (dockings_status (overview st)) ''failed'' \<noteq> None
     \<and> (\<forall>k \<in> set keys. map_of (summary_data st) k \<noteq> None)"

subsection \<open>Example inputs\<close>

definition example_outcome ::
  "string \<Rightarrow> string \<Rightarrow> string \<Rightarrow> string \<Rightarrow> string \<Rightarrow> real option \<Rightarrow> docking_item" where
  "example_outcome tmp ck lk sk st sc =
     \<lparr>ligand_key = lk, ligand_path = tmp @ ''/1/'' @ lk @ ''.pdbqt'', scenario_key = sk,
      collection_key = ck, base_collection_key = ck, config_path = ''config.txt'',
      program = ''qvina02'', program_long = ''qvina02'', input_files_dir = ''/tmp/in'',
      timeout = 60, tools_path = ''/opt/vf/tools/bin'', threads_per_docking = 1,
      temp_dir = tmp, attrs = [(''smi'', ''CCO'')],
      output_dir = tmp @ ''/output/'' @ sk @ ''/'' @ lk @ ''/0'',
      output_path = tmp @ ''/output/'' @ sk @ ''/'' @ lk @ ''/0/output'', status = st,
      log_path = tmp @ ''/output/'' @ sk @ ''/'' @ lk @ ''/0/stdout'',
      log = \<lparr>log_base_collection_key = ck, log_collection_key = ck, log_ligand_key = lk,
             log_reason = ''''\<rparr>,
      score = sc, uuid = Some (''run-'' @ lk), tmp_run_dir = Some (''/tmp/run/run-'' @ lk)\<rparr>"

definition example_item ::
  "string \<Rightarrow> string \<Rightarrow> string \<Rightarrow> string \<Rightarrow> real option \<Rightarrow> docking_item" where
  "example_item ck lk sk st sc = example_outcome ''/tmp/c'' ck lk sk st sc"

definition example_batch :: "docking_item list \<Rightarrow> batched_item" where
  "example_batch is =
     \<lparr>items = is, batch_program = ''qvina02'', execution_type = ''single'',
      batch_scenario_key = ''s1'', batch_uuid = None, batch_output_dir = None\<rparr>"

text \<open>
  One collection \<open>AAAA_1\<close> with two dispatched tasks and one skipped ligand; the marker
  arrives between the two outcomes.
\<close>

definition example_events :: "summary_item list" where
  "example_events =
     [Docking_complete
        (example_batch [example_item ''AAAA_1'' ''L1'' ''s1'' ''success'' (Some (- 7.5))]),
      Skip \<lparr>log_base_collection_key = ''AAAA_1'', log_collection_key = ''AAAA_1'',
            log_ligand_key = ''L3'', log_reason = ''duplicate coordinates''\<rparr>,
      Delete ''/tmp/c'' ''AAAA_1'' 2,
      Docking_complete
        (example_batch [example_item ''AAAA_1'' ''L2'' ''s1'' ''failed'' None])]"

definition example_dirs :: "(string \<times> string) list" where
  "example_dirs = [(''s1'', ''/tmp/output/s1/7'')]"

text \<open>
  A file system for the examples: the list of the directories that exist. \<open>dir_name\<close> and
  \<open>base_name\<close> are \<^verbatim>\<open>os.path.dirname\<close> and \<^verbatim>\<open>os.path.basename\<close>, and \<open>inside d p\<close> says that
  \<open>p\<close> lies below \<open>d\<close>. \<^verbatim>\<open>iterdir\<close> and \<^verbatim>\<open>rmtree\<close> raise \<^verbatim>\<open>FileNotFoundError\<close> for a directory
  that is not there. \<^verbatim>\<open>shutil.move(src, dst)\<close> with a directory \<open>dst\<close> raises \<^verbatim>\<open>shutil.Error\<close>
  when \<open>dst\<close> already holds an entry with the name of \<open>src\<close>, and else renames \<open>src\<close>, with
  all below it, to that entry; a \<open>dst\<close> that is not there is the new name of \<open>src\<close>.
\<close>

definition dir_name :: "string \<Rightarrow> string" where
  "dir_name p = rev (tl (dropWhile (\<lambda>ch. ch \<noteq> CHR ''/'') (rev p)))"

definition base_name :: "string \<Rightarrow> string" where
  "base_name p = rev (takeWhile (\<lambda>ch. ch \<noteq> CHR ''/'') (rev p))"

definition inside :: "string \<Rightarrow> string \<Rightarrow> bool" where
  "inside d p \<longleftrightarrow> take (length d + 1) p = d @ ''/''"

definition rename :: "string \<Rightarrow> string \<Rightarrow> string list \<Rightarrow> string list" where
  "rename src target disk =
     map (\<lambda>p. if p = src then target
               else if inside src p then target @ drop (length src) p else p) disk"

definition example_iterdir :: "string list \<Rightarrow> string \<Rightarrow> py_error + string list" where
  "example_iterdir disk d =
     (if d \<in> set disk then Inr (filter (\<lambda>p. dir_name p = d) disk) else Inl FileNotFoundError)"

definition example_move :: "string list \<Rightarrow> string \<Rightarrow> string \<Rightarrow> py_error + string list" where
  "example_move disk src dst =
     (let d = (if dst \<noteq> [] \<and> last dst = CHR ''/'' then butlast dst else dst) in
      if d \<in> set disk then
        (if d @ ''/'' @ base_name src \<in> set disk then Inl Shutil_Error
         else if src \<in> set disk then Inr (rename src (d @ ''/'' @ base_name src) disk)
         else Inl FileNotFoundError)
      else if src \<in> set disk \<and> dir_name d \<in> set disk then Inr (rename src d disk)
      else Inl FileNotFoundError)"

definition example_rmtree :: "string list \<Rightarrow> string \<Rightarrow> py_error + string list" where
  "example_rmtree disk p =
     (if p \<in> set disk then Inr (filter (\<lambda>q. q \<noteq> p \<and> \<not> inside p q) disk)
      else Inl FileNotFoundError)"

definition example_os :: "string list os" where
  "example_os = \<lparr>iterdir = example_iterdir, move = example_move, rmtree = example_rmtree\<rparr>"

text \<open>
  The directories of a collection when its events reach the aggregator: the validator
  has made \<^verbatim>\<open>temp_dir/output/scenario_key\<close> for every scenario (lines 278-279) and
  \<^verbatim>\<open>temp_dir/output/scenario_key/ligand/0\<close> for every dispatched ligand (lines 428-429).
  \<open>final_tree\<close> are the scenario directories of lines 703-704 under \<^verbatim>\<open>/tmp\<close>, for the subjob
  \<open>7\<close>.
\<close>

definition collection_tree :: "string \<Rightarrow> string list \<Rightarrow> string list \<Rightarrow> string list" where
  "collection_tree tmp sks lks =
     tmp # (tmp @ ''/output'')
     # concat (map (\<lambda>sk. (tmp @ ''/output/'' @ sk)
                     # concat (map (\<lambda>lk. [tmp @ ''/output/'' @ sk @ ''/'' @ lk,
                                           tmp @ ''/output/'' @ sk @ ''/'' @ lk @ ''/0'']) lks))
                sks)"

definition final_tree :: "string list \<Rightarrow> string list" where
  "final_tree sks =
     ''/tmp'' # ''/tmp/output''
     # concat (map (\<lambda>sk. [''/tmp/output/'' @ sk, ''/tmp/output/'' @ sk @ ''/7'']) sks)"

definition example_disk :: "string list" where
  "example_disk = final_tree [''s1''] @ collection_tree ''/tmp/c'' [''s1''] [''L1'', ''L2'']"

text \<open>
  Two collections that both hold a ligand named \<open>L1\<close>, each with one dispatched task, and
  the directories of both.
\<close>

definition example_events_same_ligand :: "summary_item list" where
  "example_events_same_ligand =
     [Delete ''/tmp/c'' ''AAAA_1'' 1,
      Docking_complete
        (example_batch
           [example_outcome ''/tmp/c'' ''AAAA_1'' ''L1'' ''s1'' ''success'' (Some (- 7.5))]),
      Delete ''/tmp/d'' ''AAAB_2'' 1,
      Docking_complete
        (example_batch
           [example_outcome ''/tmp/d'' ''AAAB_2'' ''L1'' ''s1'' ''success'' (Some (- 6))])]"

definition example_disk_same_ligand :: "string list" where
  "example_disk_same_ligand =
     final_tree [''s1''] @ collection_tree ''/tmp/c'' [''s1''] [''L1'']
     @ collection_tree ''/tmp/d'' [''s1''] [''L1'']"

subsection \<open>The summary tables\<close>

text \<open>Each element once, in the order of its first appearance.\<close>

fun distinct_in_order :: "'a list \<Rightarrow> 'a list" where
  "distinct_in_order [] = []"
| "distinct_in_order (x # xs) = x # distinct_in_order (filter (\<lambda>y. y \<noteq> x) xs)"

definition attr_columns :: "(string \<times> summary_row) list \<Rightarrow> string list" where
  "attr_columns rows =
     distinct_in_order
       (map (\<lambda>(attr_name, attr_value). ''attr_'' @ attr_name) (concat (map (sr_attrs \<circ> snd) rows)))"

definition max_score_count :: "(string \<times> summary_row) list \<Rightarrow> nat" where
  "max_score_count rows = foldr max (map (length \<circ> sr_scores \<circ> snd) rows) 0"

text \<open>
  The scores of the successful outcomes of ligand \<open>lk\<close> under scenario \<open>sk\<close>, in the order
  in which the aggregator received them.
\<close>

definition item_scores :: "docking_item list \<Rightarrow> string \<Rightarrow> string \<Rightarrow> real list" where
  "item_scores is sk lk =
     concat (map (\<lambda>i. case score i of Some s \<Rightarrow> [s] | None \<Rightarrow> [])
       (filter (\<lambda>i. status i = ''success'' \<and> scenario_key i = sk \<and> ligand_key i = lk) is))"

definition scores_of :: "summary_item list \<Rightarrow> string \<Rightarrow> string \<Rightarrow> real list" where
  "scores_of evs sk lk = item_scores (concat (map event_items evs)) sk lk"

definition scores_recorded ::
  "(string \<Rightarrow> string \<Rightarrow> real list) \<Rightarrow> (string \<times> (string \<times> summary_row) list) list \<Rightarrow> bool" where
  "scores_recorded h sd \<longleftrightarrow>
     (\<forall>sk rows. map_of sd sk = Some rows \<longrightarrow>
        distinct (map fst rows)
        \<and> (\<forall>lk. (map_of rows lk = None \<longrightarrow> h sk lk = [])
               \<and> (\<forall>row. map_of rows lk = Some row \<longrightarrow>
                      sr_scores row = h sk lk \<and> h sk lk \<noteq> []
                      \<and> sr_scenario row = sk \<and> sr_ligand row = lk)))"

fun table_rows :: "artifact \<Rightarrow> (string \<Rightarrow> cell option) list" where
  "table_rows (Summary_parquet t) = map (\<lambda>(summary_key, d). map_of d) t"
| "table_rows (Summary_csv header body) =
     map (\<lambda>cells column. case map_of (zip header cells) column of Some v \<Rightarrow> v | None \<Rightarrow> None) body"
| "table_rows _ = []"

text \<open>
  The column ordering of the delimited text table in the words of the specification:
  \<^verbatim>\<open>ligand, collection_key, scenario, score_average, score_min\<close>, the \<^verbatim>\<open>attr_*\<close> columns, the
  tranche letter columns, then \<^verbatim>\<open>score_0 .. score_{R-1}\<close>.
\<close>

definition tranche_count :: "summary_row \<Rightarrow> nat" where
  "tranche_count row = length (takeWhile (\<lambda>ch. ch \<noteq> CHR ''_'') (sr_collection_key row))"

definition spec_csv_ordering :: "(string \<times> summary_row) list \<Rightarrow> string list" where
  "spec_csv_ordering rows =
     [''ligand'', ''collection_key'', ''scenario'', ''score_average'', ''score_min'']
     @ attr_columns rows
     @ map (\<lambda>index. ''tranche_'' @ str_nat index)
         [0..<foldr max (map (tranche_count \<circ> snd) rows) 0]
     @ map (\<lambda>index. ''score_'' @ str_nat index) [0..<max_score_count rows]"

text \<open>The headers of the delimited text tables among some uploads.\<close>

definition csv_headers :: "uploader_item list \<Rightarrow> string list list" where
  "csv_headers ups =
     concat (map (\<lambda>up. case content up of Summary_csv header body \<Rightarrow> [header] | _ \<Rightarrow> []) ups)"

text \<open>A configuration with the given scenario keys and summary formats.\<close>

definition example_ctx :: "string list \<Rightarrow> string list \<Rightarrow> ctx" where
  "example_ctx scenario_keys formats =
     \<lparr>main_config =
        \<lparr>docking_scenarios =
           map (\<lambda>sk. \<lparr>sc_key = sk, sc_config = ''/tmp/vf_input/input-files/'' @ sk @ ''/config.txt'',
                       sc_program = ''qvina02'', sc_program_long = ''qvina02'',
                       sc_replicas = 1, sc_batchsizes = 1\<rparr>) scenario_keys,
         summary_formats = formats,
         job_storage_mode = ''s3'',
         object_store_job_prefix = ''jobs'',
         object_store_job_bucket = ''bucket'',
         job_name = ''screen'',
         sharedfs_output_files_path = '''',
         run_atom_check = 1,
         dynamic_tranche_filtering = 0,
         dynamic_tranche_filtering_regex = None,
         ligand_library_format = ''pdbqt'',
         print_attrs_in_summary = [''smi''],
         program_timeout = 60,
         cfg_threads_per_docking = 1\<rparr>,
      ctx_temp_dir = ''/tmp'',
      ctx_tools_path = ''/opt/vf/tools/bin'',
      workunit_id = ''3'',
      subjob_id = ''7''\<rparr>"

definition example_summary_data :: "(string \<times> (string \<times> summary_row) list) list" where
  "example_summary_data =
     [(''s1'', [(''L1'', \<lparr>sr_ligand = ''L1'', sr_collection_key = ''AAAA_1'', sr_scenario = ''s1'',
                          sr_scores = [- 7.5, - 7], sr_attrs = [(''smi'', ''CCO'')]\<rparr>)])]"

text \<open>
  The outcomes of one ligand under two scenarios: the docking for \<open>s0\<close> failed, the one
  for \<open>s1\<close> succeeded.
\<close>

definition example_events_two_scenarios :: "summary_item list" where
  "example_events_two_scenarios =
     [Docking_complete
        ((example_batch [example_item ''AAAA_1'' ''L1'' ''s0'' ''failed'' None])
           \<lparr>batch_scenario_key := ''s0''\<rparr>),
      Docking_complete
        (example_batch [example_item ''AAAA_1'' ''L1'' ''s1'' ''success'' (Some (- 7.5))]),
      Delete ''/tmp/c'' ''AAAA_1'' 2]"

definition example_disk_two_scenarios :: "string list" where
  "example_disk_two_scenarios =
     final_tree [''s0'', ''s1''] @ collection_tree ''/tmp/c'' [''s0'', ''s1''] [''L1'']"

text \<open>
  Three replicas of one ligand under one scenario, all successful, with different scores;
  the marker arrives before the last outcome. \<open>example_replica index sc\<close> is the outcome
  of replica \<open>index\<close>.
\<close>

definition example_replica :: "string \<Rightarrow> real \<Rightarrow> docking_item" where
  "example_replica index sc =
     (example_item ''AAAA_1'' ''L1'' ''s1'' ''success'' (Some sc))
       \<lparr>output_dir := ''/tmp/c/output/s1/L1/'' @ index,
        output_path := ''/tmp/c/output/s1/L1/'' @ index @ ''/output'',
        log_path := ''/tmp/c/output/s1/L1/'' @ index @ ''/stdout'',
        uuid := Some (''run-L1-'' @ index),
        tmp_run_dir := Some (''/tmp/run/run-L1-'' @ index)\<rparr>"

definition example_events_replicas :: "summary_item list" where
  "example_events_replicas =
     [Docking_complete (example_batch [example_replica ''0'' (- 7.5)]),
      Docking_complete (example_batch [example_replica ''1'' (- 9.25)]),
      Delete ''/tmp/c'' ''AAAA_1'' 3,
      Docking_complete (example_batch [example_replica ''2'' (- 6.5)])]"

definition example_disk_replicas :: "string list" where
  "example_disk_replicas =
     final_tree [''s1''] @ collection_tree ''/tmp/c'' [''s1''] [''L1'']
     @ [''/tmp/c/output/s1/L1/1'', ''/tmp/c/output/s1/L1/2'']"

subsection \<open>The unpacker and the validator\<close>

text \<open>The rows of the listing that name the ligand \<open>lk\<close> with a rank index below the cutoff.\<close>

definition kept_rows :: "int \<Rightarrow> (string \<times> string \<times> int) list \<Rightarrow> string \<Rightarrow> (string \<times> string \<times> int) list" where
  "kept_rows cutoff rows lk = filter (\<lambda>(ck, name, idx). name = lk \<and> idx < cutoff) rows"

text \<open>An item in prescreen mode with cutoff 2, its archive and its listing of three rows.\<close>

definition example_download_item :: download_item where
  "example_download_item =
     \<lparr>item_collection_key = ''AAAA_1'',
      item_collection =
        \<lparr>collection_number = ''1'', collection_name = ''AAAA'', mode = ''prescreen_mode'',
         prescreen_ligands_per_tranche = 2, named_ligands = [], dockings = 3\<rparr>,
      ext = ''tar.gz'',
      item_temp_dir = ''/tmp/c'',
      local_path = ''/tmp/c/tmp.tar.gz''\<rparr>"

definition example_members :: "(string \<times> bool) list" where
  "example_members =
     [(''1'', True), (''1/.listing'', False), (''1/L1.pdbqt'', False),
      (''1/L2.pdbqt'', False), (''1/L3.pdbqt'', False)]"

definition example_listing :: "string list" where
  "example_listing =
     [''ABCD_7,L1,0'' @ [CHR 0x0A], ''ABCE_2,L2,5'' @ [CHR 0x0A], ''ABCF_3,L3,1'' @ [CHR 0x0A]]"

definition example_archive :: archive_files where
  "example_archive = \<lparr>tar_members = Some example_members, listing = Some example_listing\<rparr>"

definition example_ligand :: "string \<Rightarrow> string \<Rightarrow> ligand" where
  "example_ligand lk ck =
     \<lparr>lig_path = ''/tmp/c/1/'' @ lk @ ''.pdbqt'', lig_base_collection_key = ''AAAA_1'',
      lig_collection_key = ck\<rparr>"

text \<open>A listing that names the ligand \<open>L1\<close> twice, with rank indices 0 and 5.\<close>

definition example_listing_twice :: "string list" where
  "example_listing_twice = [''ABCD_7,L1,0'' @ [CHR 0x0A], ''ABCE_2,L1,5'' @ [CHR 0x0A]]"

definition example_archive_twice :: archive_files where
  "example_archive_twice =
     \<lparr>tar_members = Some example_members, listing = Some example_listing_twice\<rparr>"







subsection \<open>The executor\<close>

text \<open>
  A table with one program of the single model, whose completion function finds no
  score; a runner under which the first ligand times out, the second exits with code 1
  and the others with code 0; and a table whose start function raises because the
  configuration file of the scenario is missing.
\<close>

definition example_backend :: backend where
  "example_backend =
     \<lparr>be_start = Some (\<lambda>task. Inr [tools_path task @ ''/qvina02'', ''--ligand'', ligand_key task]),
      be_end = Some (\<lambda>item ret. Inr \<lparr>po_status = ''failed'', po_score = None,
                                      po_reason = ''Could not find score''\<rparr>),
      be_ligands = ''single''\<rparr>"

definition example_world :: world where
  "example_world =
     \<lparr>DOCKING_PROGRAMS = [''qvina02'' \<mapsto> example_backend],
      subprocess_run = (\<lambda>cmd cwd limit.
         if ''L1'' \<in> set cmd then Timed_out
         else if ''L2'' \<in> set cmd then Completed 1 '''' ''error''
         else Completed 0 ''no result'' ''''),
      uuid4 = (\<lambda>n. ''id'' @ str_nat n)\<rparr>"

definition example_world_start_raises :: world where
  "example_world_start_raises =
     example_world
       \<lparr>DOCKING_PROGRAMS :=
          [''qvina02'' \<mapsto> example_backend\<lparr>be_start := Some (\<lambda>task. Inl FileNotFoundError)\<rparr>]\<rparr>"

definition example_scenario :: scenario where
  "example_scenario =
     \<lparr>sc_key = ''s1'', sc_config = ''/tmp/vf_input/input-files/s1/config.txt'',
      sc_program = ''qvina02'', sc_program_long = ''qvina02'', sc_replicas = 1,
      sc_batchsizes = 3\<rparr>"

definition example_task :: "string \<Rightarrow> docking_task" where
  "example_task lk = docking_task.truncate (example_item ''AAAA_1'' lk ''s1'' '''' None)"

section \<open>Properties of the aggregator\<close>

subsection \<open>What the file system calls leave in the state\<close>

lemma move_files_result:
  "move_files os caller st dir_files dst = Inr st' \<Longrightarrow>
     \<exists>disk. st' = st\<lparr>file_system := disk,
                      effects := effects st @ map (\<lambda>f. (caller, Move f dst)) dir_files\<rparr>"
proof (induction dir_files arbitrary: st)
  case Nil
  then show ?case by (auto intro: exI[of _ "file_system st"])
next
  case (Cons f rest)
  from Cons.prems obtain disk1 where m: "move os (file_system st) f dst = Inr disk1"
    and r: "move_files os caller
              (st\<lparr>file_system := disk1, effects := effects st @ [(caller, Move f dst)]\<rparr>)
              rest dst = Inr st'"
    by (auto split: sum.splits)
  from Cons.IH[OF r] show ?case by auto
qed

lemma move_entries_result:
  assumes "move_entries os caller st src dst = Inr st'"
  shows "\<exists>disk es. st' = st\<lparr>file_system := disk,
           effects := effects st @ (caller, Iterdir src es) # map (\<lambda>f. (caller, Move f dst)) es\<rparr>"
proof -
  from assms obtain es where
    r: "move_files os caller (st\<lparr>effects := effects st @ [(caller, Iterdir src es)]\<rparr>) es dst
          = Inr st'"
    by (auto simp: move_entries_def split: sum.splits)
  from move_files_result[OF r] show ?thesis by auto
qed

lemma move_scenarios_result:
  "move_scenarios os k st tmp dirs = Inr st' \<Longrightarrow>
     \<exists>disk ess. length ess = length dirs
       \<and> st' = st\<lparr>file_system := disk,
                  effects := effects st @ map (Pair (Some k))
                    (concat (map (\<lambda>((sk, dest), es).
                                    Iterdir (tmp @ ''/output/'' @ sk) es
                                    # map (\<lambda>dir_file. Move dir_file (dest @ ''/'')) es)
                              (zip dirs ess)))\<rparr>"
proof (induction dirs arbitrary: st)
  case Nil
  then show ?case by (auto intro: exI[of _ "file_system st"])
next
  case (Cons d dirs)
  obtain sk dest where d: "d = (sk, dest)" by (cases d)
  from Cons.prems d obtain st1 where
    m: "move_entries os (Some k) st (tmp @ ''/output/'' @ sk) (dest @ ''/'') = Inr st1"
    and r: "move_scenarios os k st1 tmp dirs = Inr st'"
    by (auto split: sum.splits)
  from move_entries_result[OF m] obtain disk1 es where
    st1: "st1 = st\<lparr>file_system := disk1,
            effects := effects st @ (Some k, Iterdir (tmp @ ''/output/'' @ sk) es)
              # map (\<lambda>f. (Some k, Move f (dest @ ''/''))) es\<rparr>"
    by blast
  from Cons.IH[OF r] obtain disk ess where len: "length ess = length dirs"
    and st': "st' = st1\<lparr>file_system := disk,
                effects := effects st1 @ map (Pair (Some k))
                  (concat (map (\<lambda>((sk, dest), es).
                                  Iterdir (tmp @ ''/output/'' @ sk) es
                                  # map (\<lambda>dir_file. Move dir_file (dest @ ''/'')) es)
                            (zip dirs ess)))\<rparr>"
    by blast
  show ?case
    by (rule exI[of _ disk], rule exI[of _ "es # ess"])
       (simp add: len st' st1 d comp_def)
qed

lemma check_result:
  assumes "check_for_completion_of_collection_key os st k dirs = Inr st'"
  shows "\<exists>e. collection_completions st k = Some e
           \<and> (if current_completions e = expected_completions e then
                (\<exists>disk ess. length ess = length dirs
                   \<and> st' = st\<lparr>file_system := disk,
                        effects := effects st
                          @ map (Pair (Some k)) (completion_calls (cc_temp_dir e) dirs ess),
                        collection_completions := (collection_completions st)(k := None),
                        completed := completed st @ [(k, e)]\<rparr>)
              else st' = st)"
proof -
  from assms obtain e where e: "collection_completions st k = Some e"
    by (auto simp: check_for_completion_of_collection_key_def split: option.splits)
  show ?thesis
  proof (cases "current_completions e = expected_completions e")
    case False
    with assms e show ?thesis by (simp add: check_for_completion_of_collection_key_def)
  next
    case True
    with assms e obtain st1 disk where
      m: "move_scenarios os k st (cc_temp_dir e) dirs = Inr st1"
      and st': "st' = st1\<lparr>file_system := disk,
                  effects := effects st1 @ [(Some k, Rmtree (cc_temp_dir e))],
                  collection_completions := (collection_completions st1)(k := None),
                  completed := completed st1 @ [(k, e)]\<rparr>"
      by (auto simp: check_for_completion_of_collection_key_def split: sum.splits)
    from move_scenarios_result[OF m] obtain disk1 ess where len: "length ess = length dirs"
      and st1: "st1 = st\<lparr>file_system := disk1,
                  effects := effects st @ map (Pair (Some k))
                    (concat (map (\<lambda>((sk, dest), es).
                                    Iterdir (cc_temp_dir e @ ''/output/'' @ sk) es
                                    # map (\<lambda>dir_file. Move dir_file (dest @ ''/'')) es)
                              (zip dirs ess)))\<rparr>"
      by blast
    have "st' = st\<lparr>file_system := disk,
             effects := effects st
               @ map (Pair (Some k)) (completion_calls (cc_temp_dir e) dirs ess),
             collection_completions := (collection_completions st)(k := None),
             completed := completed st @ [(k, e)]\<rparr>"
      by (simp add: st' st1 completion_calls_def)
    with e True len show ?thesis by auto
  qed
qed

lemma calls_for_append:
  "calls_for k (st\<lparr>effects := effects st @ map (Pair (Some k')) cs\<rparr>)
     = (if k' = k then calls_for k st @ cs else calls_for k st)"
  by (simp add: calls_for_def comp_def filter_map)

lemma check_frame:
  assumes "check_for_completion_of_collection_key os st k dirs = Inr st'"
  shows "overview st' = overview st \<and> summary_data st' = summary_data st
         \<and> dockings_processed st' = dockings_processed st"
  using check_result[OF assms] by (auto split: if_splits)

lemma check_other:
  assumes "check_for_completion_of_collection_key os st k' dirs = Inr st'" "k' \<noteq> k"
  shows "collection_completions st' k = collection_completions st k
         \<and> popped k st' = popped k st \<and> calls_for k st' = calls_for k st"
  using check_result[OF assms(1)] assms(2)
  by (auto simp: popped_def calls_for_def comp_def filter_map split: if_splits)

lemma check_overview:
  "check_for_completion_of_collection_key os st k dirs = Inr st' \<Longrightarrow> overview st' = overview st"
  by (simp add: check_frame)

lemma count_completion_frame:
  assumes "count_completion os st k dirs = Inr st'"
  shows "overview st' = overview st \<and> summary_data st' = summary_data st
         \<and> dockings_processed st' = dockings_processed st"
  using assms by (auto simp: count_completion_def dest!: check_frame split: option.splits)

lemma count_completion_overview:
  "count_completion os st k dirs = Inr st' \<Longrightarrow> overview st' = overview st"
  by (simp add: count_completion_frame)

lemma move_batch_logs_result:
  assumes "move_batch_logs os st b dirs = Inr st'"
  shows "\<exists>disk cs. st' = st\<lparr>file_system := disk, effects := effects st @ map (Pair None) cs\<rparr>"
proof -
  from assms obtain dir u out st1 disk where
    m: "move_entries os None st out (dir @ ''/batch_exec/'' @ u @ ''/'') = Inr st1"
    and st': "st' = st1\<lparr>file_system := disk, effects := effects st1 @ [(None, Rmtree out)]\<rparr>"
    by (auto simp: move_batch_logs_def split: option.splits sum.splits)
  from move_entries_result[OF m] obtain disk1 es where
    st1: "st1 = st\<lparr>file_system := disk1,
            effects := effects st @ (None, Iterdir out es)
              # map (\<lambda>f. (None, Move f (dir @ ''/batch_exec/'' @ u @ ''/''))) es\<rparr>"
    by blast
  show ?thesis
    by (rule exI[of _ disk],
        rule exI[of _ "Iterdir out es # map (\<lambda>f. Move f (dir @ ''/batch_exec/'' @ u @ ''/'')) es
                       @ [Rmtree out]"])
       (simp add: st' st1 comp_def)
qed

lemma move_batch_logs_overview:
  "move_batch_logs os st b dirs = Inr st' \<Longrightarrow> overview st' = overview st"
  by (auto dest!: move_batch_logs_result)

lemma move_batch_logs_frame:
  "move_batch_logs os st b dirs = Inr st' \<Longrightarrow>
     collection_completions st' = collection_completions st \<and> completed st' = completed st
     \<and> (\<forall>k. calls_for k st' = calls_for k st)"
  by (auto simp: calls_for_def comp_def filter_map dest!: move_batch_logs_result)

lemma single_item_as_count_completion:
  assumes "summary_single_item os dirs st i = Inr st'"
  shows "\<exists>st1. collection_completions st1 = collection_completions st
            \<and> completed st1 = completed st \<and> effects st1 = effects st
            \<and> count_completion os st1 (base_collection_key i) dirs = Inr st'"
  using assms unfolding summary_single_item_def
  by (auto split: sum.splits if_splits
      intro: exI[of _ "st\<lparr>overview := od, summary_data := sd\<rparr>" for od sd]
             exI[of _ "st\<lparr>overview := od\<rparr>" for od])

lemma count_completion_other:
  assumes "count_completion os st k' dirs = Inr st'" "k' \<noteq> k"
  shows "collection_completions st' k = collection_completions st k
         \<and> popped k st' = popped k st \<and> calls_for k st' = calls_for k st"
proof (cases "collection_completions st k'")
  case None
  with assms show ?thesis by (auto simp: count_completion_def popped_def calls_for_def)
next
  case (Some e)
  with assms(1) have "check_for_completion_of_collection_key os
      (st\<lparr>collection_completions := (collection_completions st)
             (k' \<mapsto> e\<lparr>current_completions := current_completions e + 1\<rparr>)\<rparr>) k' dirs = Inr st'"
    by (simp add: count_completion_def)
  from check_other[OF this assms(2)] assms(2) show ?thesis
    by (simp add: popped_def calls_for_def)
qed

lemma event_other:
  assumes "summary_event os dirs st ev = Inr st'" "event_items ev = []" "markers_for k [ev] = []"
  shows "collection_completions st' k = collection_completions st k
         \<and> popped k st' = popped k st \<and> calls_for k st' = calls_for k st"
proof (cases ev)
  case (Delete tmp' key n')
  with assms(3) have ne: "key \<noteq> k" by (auto split: if_splits)
  from assms(1) Delete have "check_for_completion_of_collection_key os
      (st\<lparr>collection_completions := (collection_completions st)
            (key \<mapsto> (case collection_completions st key of
                        Some e \<Rightarrow> e\<lparr>expected_completions := n', cc_temp_dir := tmp'\<rparr>
                      | None \<Rightarrow> \<lparr>expected_completions = n', current_completions = 0,
                                 cc_temp_dir = tmp'\<rparr>))\<rparr>) key dirs = Inr st'"
    by (simp add: summary_event_def)
  from check_other[OF this ne] ne show ?thesis by (simp add: popped_def calls_for_def)
next
  case (Docking_complete b)
  with assms show ?thesis
    by (auto simp: summary_event_def event_items_def popped_def calls_for_def
        dest!: move_batch_logs_frame split: if_splits)
qed (use assms in \<open>auto simp: summary_event_def popped_def calls_for_def\<close>)

subsection \<open>Invariants of the loop\<close>

text \<open>
  A property of the completion map, the completion trace and the calls made for the
  collections that every update of an entry preserves is preserved by the whole loop.
\<close>

lemma summary_items_preserves:
  assumes frame: "\<And>s s'. collection_completions s' = collection_completions s
            \<Longrightarrow> completed s' = completed s \<Longrightarrow> (\<forall>k. calls_for k s' = calls_for k s)
            \<Longrightarrow> P s \<Longrightarrow> P s'"
    and step: "\<And>s s' key. P s \<Longrightarrow> count_completion os s key dirs = Inr s' \<Longrightarrow> P s'"
  shows "P st \<Longrightarrow> summary_items os dirs st is = Inr st' \<Longrightarrow> P st'"
proof (induction "is" arbitrary: st)
  case Nil
  then show ?case by simp
next
  case (Cons i "is")
  from Cons.prems(2) obtain st1 where s1: "summary_single_item os dirs st i = Inr st1"
    and s2: "summary_items os dirs st1 is = Inr st'"
    by (auto split: sum.splits)
  from single_item_as_count_completion[OF s1] obtain st0 where
    a: "collection_completions st0 = collection_completions st" "completed st0 = completed st"
       "effects st0 = effects st"
    and c: "count_completion os st0 (base_collection_key i) dirs = Inr st1"
    by blast
  have "P st0" using frame[of st0 st] a Cons.prems(1) by (simp add: calls_for_def)
  then have "P st1" using step c by blast
  then show ?case using Cons.IH s2 by blast
qed

lemma summary_event_preserves:
  fixes os :: "'fs os"
  assumes frame: "\<And>s s'. collection_completions s' = collection_completions s
            \<Longrightarrow> completed s' = completed s \<Longrightarrow> (\<forall>k. calls_for k s' = calls_for k s)
            \<Longrightarrow> P s \<Longrightarrow> P s'"
    and step: "\<And>s s' key. P s \<Longrightarrow> count_completion os s key dirs = Inr s' \<Longrightarrow> P s'"
    and del: "\<And>tmp key n. ev = Delete tmp key n \<Longrightarrow> P st'"
  shows "P st \<Longrightarrow> summary_event os dirs st ev = Inr st' \<Longrightarrow> P st'"
proof (cases ev)
  case (Docking_complete b)
  assume p: "P st" and run: "summary_event os dirs st ev = Inr st'"
  let ?st0 = "st\<lparr>dockings_processed := dockings_processed st + 1\<rparr>"
  from run Docking_complete obtain st1 where s1: "summary_items os dirs ?st0 (items b) = Inr st1"
    and s2: "collection_completions st' = collection_completions st1"
            "completed st' = completed st1" "\<forall>k. calls_for k st' = calls_for k st1"
    by (auto simp: summary_event_def dest: move_batch_logs_frame split: sum.splits if_splits)
  have p0: "P ?st0" using frame[of ?st0 st] p by (simp add: calls_for_def)
  have "P st1"
  proof (rule summary_items_preserves[where P = P and dirs = dirs and os = os, OF _ _ p0 s1])
    fix s s' :: "'fs summary_state" assume "collection_completions s' = collection_completions s"
      "completed s' = completed s" "\<forall>k. calls_for k s' = calls_for k s" "P s"
    then show "P s'" by (rule frame)
  next
    fix s s' :: "'fs summary_state" and key assume "P s" "count_completion os s key dirs = Inr s'"
    then show "P s'" by (rule step)
  qed
  then show "P st'" using frame[of st' st1] s2 by simp
next
  case (Delete tmp key n)
  then show "P st'" by (rule del)
next
  case (Download_failed l)
  assume "P st" "summary_event os dirs st ev = Inr st'"
  then show "P st'" using frame[of st' st] Download_failed
    by (auto simp: summary_event_def calls_for_def)
next
  case (Skip l)
  assume "P st" "summary_event os dirs st ev = Inr st'"
  then show "P st'" using frame[of st' st] Skip by (auto simp: summary_event_def calls_for_def)
next
  case (Other t)
  assume "summary_event os dirs st ev = Inr st'"
  then show "P st'" using Other by (simp add: summary_event_def)
qed

lemma summary_loop_preserves:
  fixes os :: "'fs os"
  assumes frame: "\<And>s s'. collection_completions s' = collection_completions s
            \<Longrightarrow> completed s' = completed s \<Longrightarrow> (\<forall>k. calls_for k s' = calls_for k s)
            \<Longrightarrow> P s \<Longrightarrow> P s'"
    and step: "\<And>s s' key. P s \<Longrightarrow> count_completion os s key dirs = Inr s' \<Longrightarrow> P s'"
    and del: "\<And>s s' tmp key n. Delete tmp key n \<in> set evs \<Longrightarrow> P s
            \<Longrightarrow> summary_event os dirs s (Delete tmp key n) = Inr s' \<Longrightarrow> P s'"
  shows "P st \<Longrightarrow> summary_loop os dirs st evs = Inr st' \<Longrightarrow> P st'"
  using del
proof (induction evs arbitrary: st)
  case Nil
  then show ?case by simp
next
  case (Cons ev evs)
  from Cons.prems(2) obtain st1 where s1: "summary_event os dirs st ev = Inr st1"
    and s2: "summary_loop os dirs st1 evs = Inr st'"
    by (auto split: sum.splits)
  have p1: "P st1"
  proof (rule summary_event_preserves[where P = P and dirs = dirs and os = os, OF _ _ _ Cons.prems(1) s1])
    fix s s' :: "'fs summary_state" assume "collection_completions s' = collection_completions s"
      "completed s' = completed s" "\<forall>k. calls_for k s' = calls_for k s" "P s"
    then show "P s'" by (rule frame)
  next
    fix s s' :: "'fs summary_state" and key assume "P s" "count_completion os s key dirs = Inr s'"
    then show "P s'" by (rule step)
  next
    fix tmp key n assume "ev = Delete tmp key n"
    then show "P st1" using Cons.prems(3)[of tmp key n st st1] Cons.prems(1) s1 by simp
  qed
  have d': "Delete tmp key n \<in> set evs \<Longrightarrow> P s
      \<Longrightarrow> summary_event os dirs s (Delete tmp key n) = Inr s' \<Longrightarrow> P s'" for s s' tmp key n
    using Cons.prems(3)[of tmp key n s s'] by simp
  from Cons.IH[OF p1 s2 d'] show ?case .
qed

lemma markers_for_empty: "markers_for k evs = [] \<Longrightarrow> Delete tmp key n \<in> set evs \<Longrightarrow> key \<noteq> k"
  by (induction k evs rule: markers_for.induct) (auto split: if_splits)

lemma nonneg_current_loop:
  fixes os :: "'fs os"
  assumes "nonneg_current st" "summary_loop os dirs st evs = Inr st'"
  shows "nonneg_current st'"
proof (rule summary_loop_preserves[where P = nonneg_current and os = os, OF _ _ _ assms])
  fix s s' :: "'fs summary_state" and key
  assume "nonneg_current s" "count_completion os s key dirs = Inr s'"
  then show "nonneg_current s'"
    unfolding nonneg_current_def count_completion_def
    by (auto dest!: check_result split: option.splits if_splits)
next
  fix s s' :: "'fs summary_state" and tmp key n
  assume "nonneg_current s" "summary_event os dirs s (Delete tmp key n) = Inr s'"
  then show "nonneg_current s'"
    unfolding nonneg_current_def summary_event_def
    by (auto dest!: check_result split: option.splits if_splits)
qed (simp add: nonneg_current_def)

lemma waiting_loop:
  fixes os :: "'fs os"
  assumes "waiting k st" "summary_loop os dirs st evs = Inr st'" "markers_for k evs = []"
  shows "waiting k st'"
proof (rule summary_loop_preserves[where P = "waiting k" and os = os, OF _ _ _ assms(1,2)])
  fix s s' :: "'fs summary_state" and key
  assume w: "waiting k s" and c: "count_completion os s key dirs = Inr s'"
  show "waiting k s'"
  proof (cases "key = k")
    case False
    from count_completion_other[OF c False] w show ?thesis by (simp add: waiting_def)
  next
    case True
    show ?thesis
    proof (cases "collection_completions s k")
      case None
      with c True w show ?thesis
        by (auto simp: count_completion_def waiting_def popped_def calls_for_def)
    next
      case (Some e)
      with w have e: "expected_completions e = - 1" "1 \<le> current_completions e"
        by (auto simp: waiting_def)
      from c True Some have "check_for_completion_of_collection_key os
          (s\<lparr>collection_completions := (collection_completions s)
                (k \<mapsto> e\<lparr>current_completions := current_completions e + 1\<rparr>)\<rparr>) k dirs = Inr s'"
        by (simp add: count_completion_def)
      from check_result[OF this] e
      have "s' = s\<lparr>collection_completions := (collection_completions s)
                (k \<mapsto> e\<lparr>current_completions := current_completions e + 1\<rparr>)\<rparr>"
        by (auto split: if_splits)
      with w e show ?thesis by (simp add: waiting_def popped_def calls_for_def)
    qed
  qed
next
  fix s s' :: "'fs summary_state" and tmp key n
  assume a: "Delete tmp key n \<in> set evs" "waiting k s"
    "summary_event os dirs s (Delete tmp key n) = Inr s'"
  have ne: "key \<noteq> k" using markers_for_empty[OF assms(3) a(1)] .
  from a(3) have "check_for_completion_of_collection_key os
      (s\<lparr>collection_completions := (collection_completions s)
           (key \<mapsto> (case collection_completions s key of
                       Some e \<Rightarrow> e\<lparr>expected_completions := n, cc_temp_dir := tmp\<rparr>
                     | None \<Rightarrow> \<lparr>expected_completions = n, current_completions = 0,
                                cc_temp_dir = tmp\<rparr>))\<rparr>) key dirs = Inr s'"
    by (simp add: summary_event_def)
  from check_other[OF this ne] a(2) ne show "waiting k s'"
    by (simp add: waiting_def popped_def calls_for_def)
qed (simp add: waiting_def popped_def)

subsection \<open>The loop returns on well-formed events when no file system call raises\<close>

lemma move_files_returns:
  "calls_return os \<Longrightarrow> \<exists>st'. move_files os caller st dir_files dst = Inr st'"
proof (induction dir_files arbitrary: st)
  case Nil
  then show ?case by simp
next
  case (Cons f rest)
  from Cons.prems obtain disk where "move os (file_system st) f dst = Inr disk"
    unfolding calls_return_def by blast
  with Cons.IH[OF Cons.prems] show ?case by simp
qed

lemma move_entries_returns:
  assumes "calls_return os"
  shows "\<exists>st'. move_entries os caller st src dst = Inr st'"
proof -
  from assms obtain es where "iterdir os (file_system st) src = Inr es"
    unfolding calls_return_def by blast
  with move_files_returns[OF assms] show ?thesis by (simp add: move_entries_def)
qed

lemma move_scenarios_returns:
  "calls_return os \<Longrightarrow> \<exists>st'. move_scenarios os k st tmp dirs = Inr st'"
proof (induction dirs arbitrary: st)
  case Nil
  then show ?case by simp
next
  case (Cons d dirs)
  obtain sk dest where d: "d = (sk, dest)" by (cases d)
  from move_entries_returns[OF Cons.prems] obtain st1 where
    "move_entries os (Some k) st (tmp @ ''/output/'' @ sk) (dest @ ''/'') = Inr st1"
    by blast
  with Cons.IH[OF Cons.prems, of st1] d show ?case by simp
qed

lemma check_returns:
  assumes "calls_return os" "collection_completions st k \<noteq> None"
  shows "\<exists>st'. check_for_completion_of_collection_key os st k dirs = Inr st'
           \<and> overview st' = overview st \<and> summary_data st' = summary_data st"
proof -
  from assms(2) obtain e where e: "collection_completions st k = Some e" by blast
  from move_scenarios_returns[OF assms(1)] obtain st1 where
    m: "move_scenarios os k st (cc_temp_dir e) dirs = Inr st1"
    by blast
  from assms(1) obtain disk where r: "rmtree os (file_system st1) (cc_temp_dir e) = Inr disk"
    unfolding calls_return_def by blast
  from e m r have "\<exists>st'. check_for_completion_of_collection_key os st k dirs = Inr st'"
    by (simp add: check_for_completion_of_collection_key_def)
  then show ?thesis using check_frame by blast
qed

lemma count_completion_returns:
  assumes "calls_return os"
  shows "\<exists>st'. count_completion os st k dirs = Inr st'
           \<and> overview st' = overview st \<and> summary_data st' = summary_data st"
proof (cases "collection_completions st k")
  case None
  then show ?thesis by (simp add: count_completion_def)
next
  case (Some e)
  let ?st1 = "st\<lparr>collection_completions := (collection_completions st)
                   (k \<mapsto> e\<lparr>current_completions := current_completions e + 1\<rparr>)\<rparr>"
  have "collection_completions ?st1 k \<noteq> None" by simp
  from check_returns[OF assms this, of dirs] Some show ?thesis
    by (auto simp: count_completion_def)
qed

lemma single_item_returns:
  assumes "calls_return os" "ready keys st" "item_ok keys i"
  shows "\<exists>st'. summary_single_item os dirs st i = Inr st' \<and> ready keys st'"
proof -
  from assms(2,3) obtain n where n: "map_of (dockings_status (overview st)) (status i) = Some n"
    by (auto simp: ready_def item_ok_def)
  define od where "od = (overview st)\<lparr>total_dockings := total_dockings (overview st) + 1,
      dockings_status := AList.update (status i) (n + 1) (dockings_status (overview st))\<rparr>"
  have cd: "count_docking (overview st) (status i) = Inr od"
    using n by (simp add: count_docking_def od_def Let_def)
  have odk: "map_of (dockings_status od) ''success'' \<noteq> None"
    "map_of (dockings_status od) ''failed'' \<noteq> None"
    using assms(2) by (auto simp: od_def ready_def update_conv')
  show ?thesis
  proof (cases "status i = ''success''")
    case True
    with assms(2,3) obtain rows s where rows: "map_of (summary_data st) (scenario_key i) = Some rows"
      and s: "score i = Some s"
      by (auto simp: ready_def item_ok_def)
    then obtain sd where sd: "record_score (summary_data st) i = Inr sd"
      and keep: "\<forall>k. map_of (summary_data st) k \<noteq> None \<longrightarrow> map_of sd k \<noteq> None"
      by (cases "map_of rows (ligand_key i)") (auto simp: record_score_def update_conv')
    from count_completion_returns[OF assms(1), of "st\<lparr>overview := od, summary_data := sd\<rparr>"
        "base_collection_key i" dirs]
    obtain st' where "count_completion os (st\<lparr>overview := od, summary_data := sd\<rparr>)
        (base_collection_key i) dirs = Inr st'"
      and "overview st' = od" "summary_data st' = sd"
      by auto
    with cd sd True odk keep assms(2) show ?thesis
      by (auto simp: summary_single_item_def ready_def)
  next
    case False
    let ?st1 = "st\<lparr>overview := od\<lparr>failed_list := failed_list od @ [log i]\<rparr>\<rparr>"
    from count_completion_returns[OF assms(1), of ?st1 "base_collection_key i" dirs]
    obtain st' where "count_completion os ?st1 (base_collection_key i) dirs = Inr st'"
      and "overview st' = od\<lparr>failed_list := failed_list od @ [log i]\<rparr>"
      "summary_data st' = summary_data st"
      by auto
    with cd False odk assms(2) show ?thesis
      by (auto simp: summary_single_item_def ready_def)
  qed
qed

lemma summary_items_returns:
  "calls_return os \<Longrightarrow> ready keys st \<Longrightarrow> list_all (item_ok keys) is
    \<Longrightarrow> \<exists>st'. summary_items os dirs st is = Inr st' \<and> ready keys st'"
proof (induction "is" arbitrary: st)
  case Nil
  then show ?case by simp
next
  case (Cons i "is")
  from single_item_returns[OF Cons.prems(1,2), of i dirs] Cons.prems(3)
  obtain st1 where "summary_single_item os dirs st i = Inr st1" "ready keys st1" by auto
  with Cons.IH[of st1] Cons.prems(1,3) show ?case by auto
qed

lemma summary_event_returns:
  assumes "calls_return os" "ready keys st" "event_ok keys ev"
  shows "\<exists>st'. summary_event os dirs st ev = Inr st' \<and> ready keys st'"
proof (cases ev)
  case (Delete tmp key n)
  let ?st1 = "st\<lparr>collection_completions := (collection_completions st)
       (key \<mapsto> (case collection_completions st key of
                   Some e \<Rightarrow> e\<lparr>expected_completions := n, cc_temp_dir := tmp\<rparr>
                 | None \<Rightarrow> \<lparr>expected_completions = n, current_completions = 0,
                            cc_temp_dir = tmp\<rparr>))\<rparr>"
  have "collection_completions ?st1 key \<noteq> None" by simp
  from check_returns[OF assms(1) this, of dirs] Delete assms(2) show ?thesis
    by (auto simp: summary_event_def ready_def)
next
  case (Docking_complete b)
  let ?st0 = "st\<lparr>dockings_processed := dockings_processed st + 1\<rparr>"
  have "ready keys ?st0" using assms(2) by (simp add: ready_def)
  from summary_items_returns[OF assms(1) this, of "items b" dirs] assms(3) Docking_complete
  show ?thesis by (auto simp: summary_event_def event_ok_def)
qed (use assms in \<open>auto simp: summary_event_def event_ok_def ready_def\<close>)

lemma summary_loop_returns:
  "calls_return os \<Longrightarrow> ready keys st \<Longrightarrow> list_all (event_ok keys) evs
    \<Longrightarrow> \<exists>st'. summary_loop os dirs st evs = Inr st'"
proof (induction evs arbitrary: st)
  case Nil
  then show ?case by simp
next
  case (Cons ev evs)
  from summary_event_returns[OF Cons.prems(1,2), of ev dirs] Cons.prems(3)
  obtain st1 where "summary_event os dirs st ev = Inr st1" "ready keys st1" by auto
  with Cons.IH[of st1] Cons.prems(1,3) show ?case by auto
qed

lemma map_of_init_keys:
  "k \<in> set keys \<or> map_of sd0 k \<noteq> None
     \<Longrightarrow> map_of (fold (\<lambda>sk sd. AList.update sk [] sd) keys sd0) k \<noteq> None"
proof (induction keys arbitrary: sd0)
  case Nil
  then show ?case by simp
next
  case (Cons a keys)
  have "k \<in> set keys \<or> map_of (AList.update a [] sd0) k \<noteq> None"
    using Cons.prems by (auto simp: update_conv')
  from Cons.IH[OF this] show ?case by simp
qed

lemma ready_init: "ready keys (summary_init keys disk)"
  using map_of_init_keys[of _ keys "[]"] by (auto simp: ready_def summary_init_def)

lemma aggregator_handles_well_formed_events:
  "calls_return os \<Longrightarrow> list_all (event_ok keys) evs
    \<Longrightarrow> \<exists>st. summary_loop os dirs (summary_init keys disk) evs = Inr st"
  by (rule summary_loop_returns[OF _ ready_init])

subsection \<open>The overview counters\<close>

lemma count_docking_ok:
  "counters_ok od \<Longrightarrow> count_docking od k = Inr od' \<Longrightarrow> k = ''success'' \<or> k = ''failed''
    \<Longrightarrow> counters_ok od'"
  unfolding counters_ok_def count_docking_def
  by (auto simp: Let_def update_conv' split: option.splits if_splits)

lemma single_item_ok:
  assumes "counters_ok (overview st)" "summary_single_item os dirs st i = Inr st'"
    "status i = ''success'' \<or> status i = ''failed''"
  shows "counters_ok (overview st')"
proof -
  from assms(2) obtain od where od: "count_docking (overview st) (status i) = Inr od"
    by (auto simp: summary_single_item_def split: sum.splits)
  then have ok: "counters_ok od" using assms(1,3) count_docking_ok by blast
  show ?thesis
  proof (cases "status i = ''success''")
    case True
    with assms(2) od obtain sd where
      "count_completion os (st\<lparr>overview := od, summary_data := sd\<rparr>) (base_collection_key i) dirs
         = Inr st'"
      by (auto simp: summary_single_item_def split: sum.splits)
    from count_completion_overview[OF this] ok show ?thesis by simp
  next
    case False
    with assms(2) od have
      "count_completion os (st\<lparr>overview := od\<lparr>failed_list := failed_list od @ [log i]\<rparr>\<rparr>)
         (base_collection_key i) dirs = Inr st'"
      by (auto simp: summary_single_item_def split: sum.splits)
    from count_completion_overview[OF this] ok show ?thesis by (simp add: counters_ok_def)
  qed
qed

lemma summary_items_ok:
  "counters_ok (overview st) \<Longrightarrow> summary_items os dirs st is = Inr st'
    \<Longrightarrow> \<forall>i \<in> set is. status i = ''success'' \<or> status i = ''failed''
    \<Longrightarrow> counters_ok (overview st')"
proof (induction "is" arbitrary: st)
  case Nil
  then show ?case by simp
next
  case (Cons i "is")
  from Cons.prems(2) obtain st1 where s1: "summary_single_item os dirs st i = Inr st1"
    and s2: "summary_items os dirs st1 is = Inr st'"
    by (auto split: sum.splits)
  have "counters_ok (overview st1)"
    using single_item_ok[OF Cons.prems(1) s1] Cons.prems(3) by simp
  then show ?case using Cons.IH s2 Cons.prems(3) by simp
qed

lemma summary_event_ok:
  assumes "counters_ok (overview st)" "summary_event os dirs st ev = Inr st'"
    "\<forall>i \<in> set (event_items ev). status i = ''success'' \<or> status i = ''failed''"
  shows "counters_ok (overview st')"
proof (cases ev)
  case (Delete tmp key n)
  with assms(2) show ?thesis using assms(1)
    by (auto simp: summary_event_def dest!: check_overview)
next
  case (Download_failed l)
  with assms(1,2) show ?thesis by (auto simp: summary_event_def counters_ok_def)
next
  case (Skip l)
  with assms(1,2) show ?thesis by (auto simp: summary_event_def counters_ok_def)
next
  case (Docking_complete b)
  with assms(2) obtain st1 where
    s1: "summary_items os dirs (st\<lparr>dockings_processed := dockings_processed st + 1\<rparr>) (items b)
           = Inr st1"
    and s2: "overview st' = overview st1"
    by (auto simp: summary_event_def dest: move_batch_logs_overview split: sum.splits if_splits)
  have "counters_ok (overview st1)"
    using summary_items_ok[OF _ s1] assms(1,3) Docking_complete by (simp add: event_items_def)
  then show ?thesis using s2 by simp
next
  case (Other t)
  with assms(2) show ?thesis by (simp add: summary_event_def)
qed

lemma summary_loop_ok:
  "counters_ok (overview st) \<Longrightarrow> summary_loop os dirs st evs = Inr st' \<Longrightarrow> statuses_ok evs
    \<Longrightarrow> counters_ok (overview st')"
proof (induction evs arbitrary: st)
  case Nil
  then show ?case by simp
next
  case (Cons ev evs)
  from Cons.prems(2) obtain st1 where s1: "summary_event os dirs st ev = Inr st1"
    and s2: "summary_loop os dirs st1 evs = Inr st'"
    by (auto split: sum.splits)
  have "counters_ok (overview st1)"
    using summary_event_ok[OF Cons.prems(1) s1] Cons.prems(3) by (simp add: statuses_ok_def)
  then show ?case using Cons.IH s2 Cons.prems(3) by (simp add: statuses_ok_def)
qed

lemma counters_ok_init: "counters_ok (overview (summary_init keys disk))"
  by (simp add: counters_ok_def summary_init_def)

lemmas example_defs =
  example_events_def example_batch_def example_item_def example_outcome_def example_dirs_def
  summary_init_def summary_event_def summary_single_item_def count_docking_def
  record_score_def count_completion_def check_for_completion_of_collection_key_def
  move_entries_def example_os_def example_iterdir_def example_move_def example_rmtree_def
  example_disk_def final_tree_def collection_tree_def dir_name_def base_name_def inside_def
  rename_def

lemma example_run:
  "\<exists>st. summary_loop example_os example_dirs (summary_init [''s1''] example_disk)
          example_events = Inr st
        \<and> total_dockings (overview st) = 2"
  by (simp add: example_defs)

lemma example_run_calls:
  "\<exists>st. summary_loop example_os example_dirs (summary_init [''s1''] example_disk)
          example_events = Inr st
        \<and> calls_for ''AAAA_1'' st
            = [Iterdir ''/tmp/c/output/s1'' [''/tmp/c/output/s1/L1'', ''/tmp/c/output/s1/L2''],
               Move ''/tmp/c/output/s1/L1'' ''/tmp/output/s1/7/'',
               Move ''/tmp/c/output/s1/L2'' ''/tmp/output/s1/7/'',
               Rmtree ''/tmp/c'']"
  by (simp add: example_defs calls_for_def)

text \<open>
  C5. Whenever the aggregator has handled a sequence of events in which every task of every
  \<^verbatim>\<open>docking_complete\<close> batch carries the status \<^verbatim>\<open>success\<close> or \<^verbatim>\<open>failed\<close>, the overview
  counters satisfy \<^verbatim>\<open>dockings_status.success + dockings_status.failed == total_dockings\<close>.
  The sequence is arbitrary, so this holds after each event of a longer run.
\<close>

theorem overview_counters_balanced:
  assumes "statuses_ok evs"
    and "summary_loop os dirs (summary_init keys disk) evs = Inr st"
  shows "\<exists>s f. map_of (dockings_status (overview st)) ''success'' = Some s
           \<and> map_of (dockings_status (overview st)) ''failed'' = Some f
           \<and> s + f = total_dockings (overview st)"
  using summary_loop_ok[OF counters_ok_init assms(2) assms(1)]
  by (simp add: counters_ok_def)

theorem overview_counters_balanced_witness:
  "statuses_ok example_events
   \<and> (\<exists>st. summary_loop example_os example_dirs (summary_init [''s1''] example_disk) example_events = Inr st
        \<and> total_dockings (overview st) = 2
        \<and> (\<exists>s f. map_of (dockings_status (overview st)) ''success'' = Some s
             \<and> map_of (dockings_status (overview st)) ''failed'' = Some f
             \<and> s + f = total_dockings (overview st)))"
proof -
  have ok: "statuses_ok example_events"
    by (simp add: statuses_ok_def example_events_def example_batch_def example_item_def example_outcome_def
        event_items_def)
  from example_run obtain st where
    run: "summary_loop example_os example_dirs (summary_init [''s1''] example_disk) example_events = Inr st"
    and tot: "total_dockings (overview st) = 2"
    by blast
  from overview_counters_balanced[OF ok run] ok run tot show ?thesis by blast
qed

subsection \<open>Completion tracking\<close>

lemma tracked_cong:
  "collection_completions st' k = collection_completions st k \<Longrightarrow> popped k st' = popped k st
    \<Longrightarrow> calls_for k st' = calls_for k st
    \<Longrightarrow> tracked dirs k n tmp d c st' = tracked dirs k n tmp d c st"
  by (simp add: tracked_def)

lemma count_completion_same:
  assumes "tracked dirs k n tmp d c st" "count_completion os st k dirs = Inr st'" "int c < n"
  shows "tracked dirs k n tmp d (Suc c) st'"
proof (cases "collection_completions st k")
  case None
  with assms show ?thesis
    by (auto simp: tracked_def count_completion_def popped_def calls_for_def split: if_splits)
next
  case (Some e)
  let ?e = "e\<lparr>current_completions := current_completions e + 1\<rparr>"
  let ?st1 = "st\<lparr>collection_completions := (collection_completions st)(k \<mapsto> ?e)\<rparr>"
  from assms(2) Some have chk: "check_for_completion_of_collection_key os ?st1 k dirs = Inr st'"
    by (simp add: count_completion_def)
  from assms(1,3) Some have pc: "popped k st = []" "calls_for k st = []"
    by (auto simp: tracked_def split: if_splits)
  from assms(1,3) Some have e: "e = (if d
      then \<lparr>expected_completions = n, current_completions = int c, cc_temp_dir = tmp\<rparr>
      else \<lparr>expected_completions = - 1, current_completions = int c, cc_temp_dir = ''''\<rparr>)"
    by (auto simp: tracked_def split: if_splits)
  show ?thesis
  proof (cases "d \<and> int (Suc c) = n")
    case True
    with e have fire: "current_completions ?e = expected_completions ?e" by simp
    from check_result[OF chk] fire obtain disk ess where len: "length ess = length dirs"
      and st': "st' = ?st1\<lparr>file_system := disk,
                  effects := effects ?st1
                    @ map (Pair (Some k)) (completion_calls (cc_temp_dir ?e) dirs ess),
                  collection_completions := (collection_completions ?st1)(k := None),
                  completed := completed ?st1 @ [(k, ?e)]\<rparr>"
      by auto
    have "calls_for k st' = completion_calls tmp dirs ess"
      using pc(2) True e by (simp add: st' calls_for_def comp_def filter_map)
    moreover have "popped k st' = [\<lparr>expected_completions = n, current_completions = n,
                                    cc_temp_dir = tmp\<rparr>]"
      using pc(1) True e by (simp add: st' popped_def)
    moreover have "collection_completions st' k = None" by (simp add: st')
    ultimately show ?thesis using True len by (auto simp: tracked_def)
  next
    case False
    with e assms(3) have nofire: "current_completions ?e \<noteq> expected_completions ?e"
      by (auto split: if_splits)
    from check_result[OF chk] nofire have "st' = ?st1" by auto
    with False e pc assms(3) show ?thesis
      by (auto simp: tracked_def popped_def calls_for_def split: if_splits)
  qed
qed

lemma delete_same:
  assumes "tracked dirs k n tmp False c st" "summary_event os dirs st (Delete tmp k n) = Inr st'"
    "int c \<le> n"
  shows "tracked dirs k n tmp True c st'"
proof -
  let ?e = "\<lparr>expected_completions = n, current_completions = int c, cc_temp_dir = tmp\<rparr>"
  let ?st1 = "st\<lparr>collection_completions := (collection_completions st)(k \<mapsto> ?e)\<rparr>"
  from assms(1) have pc: "popped k st = []" "calls_for k st = []"
    by (auto simp: tracked_def)
  from assms(1,2) have chk: "check_for_completion_of_collection_key os ?st1 k dirs = Inr st'"
    by (auto simp: summary_event_def tracked_def split: if_splits)
  show ?thesis
  proof (cases "int c = n")
    case True
    from check_result[OF chk] True obtain disk ess where len: "length ess = length dirs"
      and st': "st' = ?st1\<lparr>file_system := disk,
                  effects := effects ?st1
                    @ map (Pair (Some k)) (completion_calls tmp dirs ess),
                  collection_completions := (collection_completions ?st1)(k := None),
                  completed := completed ?st1 @ [(k, ?e)]\<rparr>"
      by auto
    have "calls_for k st' = completion_calls tmp dirs ess"
      using pc(2) by (simp add: st' calls_for_def comp_def filter_map)
    moreover have "popped k st' = [\<lparr>expected_completions = n, current_completions = n,
                                    cc_temp_dir = tmp\<rparr>]"
      using pc(1) True by (simp add: st' popped_def)
    moreover have "collection_completions st' k = None" by (simp add: st')
    ultimately show ?thesis using True len by (auto simp: tracked_def)
  next
    case False
    from check_result[OF chk] False have "st' = ?st1" by auto
    with False pc show ?thesis
      by (auto simp: tracked_def popped_def calls_for_def)
  qed
qed

lemma single_item_tracked:
  assumes "tracked dirs k n tmp d c st" "summary_single_item os dirs st i = Inr st'"
    "int (c + length (filter (\<lambda>i. base_collection_key i = k) [i])) \<le> n"
  shows "tracked dirs k n tmp d (c + length (filter (\<lambda>i. base_collection_key i = k) [i])) st'"
proof -
  from single_item_as_count_completion[OF assms(2)] obtain st1 where
    a: "collection_completions st1 = collection_completions st"
    and b: "completed st1 = completed st" "effects st1 = effects st"
    and c: "count_completion os st1 (base_collection_key i) dirs = Inr st'"
    by blast
  have t1: "tracked dirs k n tmp d c st1"
    using assms(1) tracked_cong[of st1 k st] a b by (simp add: popped_def calls_for_def)
  show ?thesis
  proof (cases "base_collection_key i = k")
    case True
    then show ?thesis using count_completion_same[OF t1, of os st'] c assms(3) by simp
  next
    case False
    then show ?thesis
      using count_completion_other[OF c, of k] t1 tracked_cong[of st' k st1] by simp
  qed
qed

lemma summary_items_tracked:
  "tracked dirs k n tmp d c st \<Longrightarrow> summary_items os dirs st is = Inr st'
    \<Longrightarrow> int (c + length (filter (\<lambda>i. base_collection_key i = k) is)) \<le> n
    \<Longrightarrow> tracked dirs k n tmp d (c + length (filter (\<lambda>i. base_collection_key i = k) is)) st'"
proof (induction "is" arbitrary: st c)
  case Nil
  then show ?case by simp
next
  case (Cons i "is")
  let ?m = "length (filter (\<lambda>i. base_collection_key i = k) [i])"
  from Cons.prems(2) obtain st1 where s1: "summary_single_item os dirs st i = Inr st1"
    and s2: "summary_items os dirs st1 is = Inr st'"
    by (auto split: sum.splits)
  have le: "int (c + ?m) \<le> n" using Cons.prems(3) by (auto split: if_splits)
  have t1: "tracked dirs k n tmp d (c + ?m) st1"
    by (rule single_item_tracked[OF Cons.prems(1) s1 le])
  have "tracked dirs k n tmp d (c + ?m + length (filter (\<lambda>i. base_collection_key i = k) is)) st'"
    by (rule Cons.IH[OF t1 s2]) (use Cons.prems(3) in \<open>auto split: if_splits\<close>)
  then show ?case by (auto simp: add.assoc split: if_splits)
qed

lemma docking_event_tracked:
  assumes "tracked dirs k n tmp d c st" "summary_event os dirs st (Docking_complete b) = Inr st'"
    "int (c + length (filter (\<lambda>i. base_collection_key i = k) (items b))) \<le> n"
  shows "tracked dirs k n tmp d (c + length (filter (\<lambda>i. base_collection_key i = k) (items b))) st'"
proof -
  let ?st0 = "st\<lparr>dockings_processed := dockings_processed st + 1\<rparr>"
  from assms(2) obtain st1 where s1: "summary_items os dirs ?st0 (items b) = Inr st1"
    and s2: "collection_completions st' = collection_completions st1"
            "completed st' = completed st1" "calls_for k st' = calls_for k st1"
    by (auto simp: summary_event_def dest: move_batch_logs_frame split: sum.splits if_splits)
  have "tracked dirs k n tmp d c ?st0"
    using assms(1) tracked_cong[of ?st0 k st] by (simp add: popped_def calls_for_def)
  from summary_items_tracked[OF this s1 assms(3)] show ?thesis
    using tracked_cong[of st' k st1] s2 by (simp add: popped_def)
qed

lemma outcomes_for_Cons:
  "outcomes_for k (ev # evs)
     = filter (\<lambda>i. base_collection_key i = k) (event_items ev) @ outcomes_for k evs"
  by (simp add: outcomes_for_def)

lemma summary_loop_tracked:
  "tracked dirs k n tmp d c st \<Longrightarrow> summary_loop os dirs st evs = Inr st'
    \<Longrightarrow> markers_for k evs = (if d then [] else [(tmp, n)])
    \<Longrightarrow> int (c + length (outcomes_for k evs)) = n
    \<Longrightarrow> tracked dirs k n tmp True (c + length (outcomes_for k evs)) st'"
proof (induction evs arbitrary: st d c)
  case Nil
  then show ?case by (simp add: outcomes_for_def split: if_splits)
next
  case (Cons ev evs)
  from Cons.prems(2) obtain st1 where s1: "summary_event os dirs st ev = Inr st1"
    and s2: "summary_loop os dirs st1 evs = Inr st'"
    by (auto split: sum.splits)
  show ?case
  proof (cases "\<exists>b. ev = Docking_complete b")
    case True
    then obtain b where ev: "ev = Docking_complete b" by blast
    let ?m = "length (filter (\<lambda>i. base_collection_key i = k) (items b))"
    have oc: "outcomes_for k (ev # evs)
                = filter (\<lambda>i. base_collection_key i = k) (items b) @ outcomes_for k evs"
      by (simp add: outcomes_for_Cons ev event_items_def)
    have le: "int (c + ?m) \<le> n" using Cons.prems(4) oc by simp
    have t1: "tracked dirs k n tmp d (c + ?m) st1"
      using docking_event_tracked[OF Cons.prems(1) _ le] s1 ev by simp
    have mk: "markers_for k evs = (if d then [] else [(tmp, n)])"
      using Cons.prems(3) ev by simp
    have cnt: "int (c + ?m + length (outcomes_for k evs)) = n"
      using Cons.prems(4) oc by simp
    from Cons.IH[OF t1 s2 mk cnt] show ?thesis by (simp add: oc add.assoc)
  next
    case False
    then have noit: "event_items ev = []" by (cases ev) (auto simp: event_items_def)
    then have oc: "outcomes_for k (ev # evs) = outcomes_for k evs"
      by (simp add: outcomes_for_Cons)
    show ?thesis
    proof (cases "markers_for k [ev] = []")
      case True
      then have mk: "markers_for k evs = (if d then [] else [(tmp, n)])"
        using Cons.prems(3) by (cases ev) (auto split: if_splits)
      have t1: "tracked dirs k n tmp d c st1"
        using event_other[OF s1 noit True] Cons.prems(1) tracked_cong[of st1 k st] by simp
      from Cons.IH[OF t1 s2 mk] Cons.prems(4) show ?thesis by (simp add: oc)
    next
      case False
      then obtain tmp' n' where ev: "ev = Delete tmp' k n'"
        by (cases ev) (auto split: if_splits)
      with Cons.prems(3) have d: "\<not> d" and eq: "tmp' = tmp" "n' = n"
        and mk: "markers_for k evs = []"
        by (auto split: if_splits)
      have le: "int c \<le> n" using Cons.prems(4) by simp
      have t1: "tracked dirs k n tmp True c st1"
        using delete_same[OF _ _ le] Cons.prems(1) s1 ev d eq by simp
      from Cons.IH[OF t1 s2] mk Cons.prems(4) show ?thesis by (simp add: oc)
    qed
  qed
qed

lemma tracked_init: "tracked dirs k n tmp False 0 (summary_init keys disk)"
  by (simp add: tracked_def summary_init_def popped_def calls_for_def)

text \<open>
  C1 as stated fails: \<^verbatim>\<open>shutil.move\<close> raises when the final directory of the scenario
  already holds an entry with the name of the directory that is moved, and nothing in
  \<^verbatim>\<open>summary_process\<close> catches the exception. Here the collections \<open>AAAA_1\<close> and \<open>AAAB_2\<close> both
  hold a ligand \<open>L1\<close>. The marker of \<open>AAAB_2\<close> expects one outcome and one outcome is
  delivered, but the completion of \<open>AAAA_1\<close> has moved its \<open>L1\<close> into the final directory, so
  the move for \<open>AAAB_2\<close> raises and the exception leaves the aggregator: before the last
  event the entry of \<open>AAAB_2\<close> is in the completion map and no call has been made for it,
  and handling the last event neither removes \<^verbatim>\<open>/tmp/d\<close> nor pops the entry.
\<close>

theorem completion_stopped_by_existing_directory_counterexample:
  "markers_for ''AAAB_2'' example_events_same_ligand = [(''/tmp/d'', 1)]
   \<and> int (length (outcomes_for ''AAAB_2'' example_events_same_ligand)) = 1
   \<and> summary_loop example_os example_dirs (summary_init [''s1''] example_disk_same_ligand)
         example_events_same_ligand = Inl Shutil_Error
   \<and> (case summary_loop example_os example_dirs (summary_init [''s1''] example_disk_same_ligand)
              (butlast example_events_same_ligand) of
         Inl err \<Rightarrow> None
       | Inr st \<Rightarrow> Some (collection_completions st ''AAAB_2'', calls_for ''AAAB_2'' st,
                          calls_for ''AAAA_1'' st, file_system st))
       = Some (Some \<lparr>expected_completions = 1, current_completions = 0, cc_temp_dir = ''/tmp/d''\<rparr>,
               [],
               [Iterdir ''/tmp/c/output/s1'' [''/tmp/c/output/s1/L1''],
                Move ''/tmp/c/output/s1/L1'' ''/tmp/output/s1/7/'',
                Rmtree ''/tmp/c''],
               [''/tmp'', ''/tmp/output'', ''/tmp/output/s1'', ''/tmp/output/s1/7'',
                ''/tmp/output/s1/7/L1'', ''/tmp/output/s1/7/L1/0'',
                ''/tmp/d'', ''/tmp/d/output'', ''/tmp/d/output/s1'', ''/tmp/d/output/s1/L1'',
                ''/tmp/d/output/s1/L1/0''])"
  by (simp add: example_events_same_ligand_def example_disk_same_ligand_def example_defs
      outcomes_for_def event_items_def calls_for_def)

text \<open>
  C1, amended. Take any sequence of events that the aggregator handles without an
  exception (in particular no file system call raises) and that holds exactly one delete
  marker for the base collection key \<open>k\<close>, with directory \<open>tmp\<close> and expected count \<open>n\<close>, and
  in which the docking outcomes delivered for \<open>k\<close>, over all batches, number \<open>n\<close>; events of
  other collections may be interleaved in any way. Then the completion ran exactly once
  for \<open>k\<close>: one entry was popped for \<open>k\<close>, with \<open>n\<close> of \<open>n\<close> completions and the marker's
  directory, and no entry for \<open>k\<close> is left in the completion map; and the file system
  calls made for \<open>k\<close> over the whole run are, in this order and nothing else, for every
  scenario the listing of \<^verbatim>\<open>tmp/output/scenario_key\<close> and the move of each entry listed
  into the final directory of the scenario, and then the removal of \<open>tmp\<close>.
\<close>

theorem completion_fires_exactly_once:
  assumes "summary_loop os dirs (summary_init keys disk) evs = Inr st"
    and "markers_for k evs = [(tmp, n)]"
    and "int (length (outcomes_for k evs)) = n"
  shows "popped k st
           = [\<lparr>expected_completions = n, current_completions = n, cc_temp_dir = tmp\<rparr>]
         \<and> collection_completions st k = None
         \<and> (\<exists>ess. length ess = length dirs
              \<and> calls_for k st
                  = concat (map (\<lambda>((sk, dest), es).
                                   Iterdir (tmp @ ''/output/'' @ sk) es
                                   # map (\<lambda>dir_file. Move dir_file (dest @ ''/'')) es)
                             (zip dirs ess))
                    @ [Rmtree tmp])"
proof -
  have "tracked dirs k n tmp True (length (outcomes_for k evs)) st"
    using summary_loop_tracked[OF tracked_init[of dirs k n tmp] assms(1)] assms(2,3) by simp
  then show ?thesis
    using assms(3) by (simp add: tracked_def completion_calls_def)
qed

theorem completion_fires_exactly_once_witness:
  "markers_for ''AAAA_1'' example_events = [(''/tmp/c'', 2)]
   \<and> int (length (outcomes_for ''AAAA_1'' example_events)) = 2
   \<and> (\<exists>st. summary_loop example_os example_dirs (summary_init [''s1''] example_disk)
               example_events = Inr st
        \<and> popped ''AAAA_1'' st
            = [\<lparr>expected_completions = 2, current_completions = 2, cc_temp_dir = ''/tmp/c''\<rparr>]
        \<and> collection_completions st ''AAAA_1'' = None
        \<and> calls_for ''AAAA_1'' st
            = [Iterdir ''/tmp/c/output/s1'' [''/tmp/c/output/s1/L1'', ''/tmp/c/output/s1/L2''],
               Move ''/tmp/c/output/s1/L1'' ''/tmp/output/s1/7/'',
               Move ''/tmp/c/output/s1/L2'' ''/tmp/output/s1/7/'',
               Rmtree ''/tmp/c'']
        \<and> (\<exists>ess. length ess = length example_dirs
              \<and> calls_for ''AAAA_1'' st
                  = concat (map (\<lambda>((sk, dest), es).
                                   Iterdir (''/tmp/c'' @ ''/output/'' @ sk) es
                                   # map (\<lambda>dir_file. Move dir_file (dest @ ''/'')) es)
                             (zip example_dirs ess))
                    @ [Rmtree ''/tmp/c'']))"
proof -
  have m: "markers_for ''AAAA_1'' example_events = [(''/tmp/c'', 2)]"
    by (simp add: example_events_def)
  have o: "int (length (outcomes_for ''AAAA_1'' example_events)) = 2"
    by (simp add: example_events_def example_batch_def example_item_def example_outcome_def
        outcomes_for_def event_items_def)
  from example_run_calls obtain st where
    run: "summary_loop example_os example_dirs (summary_init [''s1''] example_disk)
            example_events = Inr st"
    and calls: "calls_for ''AAAA_1'' st
            = [Iterdir ''/tmp/c/output/s1'' [''/tmp/c/output/s1/L1'', ''/tmp/c/output/s1/L2''],
               Move ''/tmp/c/output/s1/L1'' ''/tmp/output/s1/7/'',
               Move ''/tmp/c/output/s1/L2'' ''/tmp/output/s1/7/'',
               Rmtree ''/tmp/c'']"
    by blast
  from completion_fires_exactly_once[OF run m o] m o run calls show ?thesis by blast
qed

text \<open>
  C3. In every state the aggregator reaches, every entry of the completion map has a
  non-negative \<^verbatim>\<open>current_completions\<close>. As long as no delete marker for the key \<open>k\<close> has
  been handled, an entry for \<open>k\<close> (created by a docking outcome) has
  \<^verbatim>\<open>expected_completions\<close> \<open>- 1\<close> and \<^verbatim>\<open>current_completions\<close> at least 1, the completion check
  leaves it as it is, the completion branch has not run for \<open>k\<close> and no file system call
  has been made for \<open>k\<close>: archival and removal of the directory of a collection happen only
  after its marker.
\<close>

theorem no_completion_before_marker:
  assumes "summary_loop os dirs (summary_init keys disk) evs = Inr st"
  shows "(\<forall>k e. collection_completions st k = Some e \<longrightarrow> 0 \<le> current_completions e)
         \<and> (\<forall>k. markers_for k evs = [] \<longrightarrow>
               popped k st = [] \<and> calls_for k st = []
               \<and> (\<forall>e. collection_completions st k = Some e \<longrightarrow>
                     expected_completions e = - 1 \<and> 1 \<le> current_completions e
                     \<and> check_for_completion_of_collection_key os st k dirs = Inr st))"
proof -
  have "nonneg_current (summary_init keys disk)"
    by (simp add: nonneg_current_def summary_init_def)
  from nonneg_current_loop[OF this assms]
  have a: "\<forall>k e. collection_completions st k = Some e \<longrightarrow> 0 \<le> current_completions e"
    by (simp add: nonneg_current_def)
  have b: "popped k st = [] \<and> calls_for k st = []
           \<and> (\<forall>e. collection_completions st k = Some e \<longrightarrow>
                 expected_completions e = - 1 \<and> 1 \<le> current_completions e
                 \<and> check_for_completion_of_collection_key os st k dirs = Inr st)"
    if m: "markers_for k evs = []" for k
  proof -
    have "waiting k (summary_init keys disk)"
      by (simp add: waiting_def summary_init_def popped_def calls_for_def)
    from waiting_loop[OF this assms m] show ?thesis
      by (auto simp: waiting_def check_for_completion_of_collection_key_def)
  qed
  from a b show ?thesis by blast
qed

theorem no_completion_before_marker_witness:
  "markers_for ''AAAA_1'' (take 2 example_events) = []
   \<and> (\<exists>st e. summary_loop example_os example_dirs (summary_init [''s1''] example_disk)
                 (take 2 example_events) = Inr st
        \<and> collection_completions st ''AAAA_1'' = Some e
        \<and> expected_completions e = - 1 \<and> 1 \<le> current_completions e
        \<and> 0 \<le> current_completions e
        \<and> popped ''AAAA_1'' st = [] \<and> calls_for ''AAAA_1'' st = []
        \<and> check_for_completion_of_collection_key example_os st ''AAAA_1'' example_dirs = Inr st)"
proof -
  have m: "markers_for ''AAAA_1'' (take 2 example_events) = []"
    by (simp add: example_events_def)
  have "\<exists>st e. summary_loop example_os example_dirs (summary_init [''s1''] example_disk)
                  (take 2 example_events) = Inr st
          \<and> collection_completions st ''AAAA_1'' = Some e"
    by (simp add: example_defs)
  then obtain st e where
    run: "summary_loop example_os example_dirs (summary_init [''s1''] example_disk)
            (take 2 example_events) = Inr st"
    and e: "collection_completions st ''AAAA_1'' = Some e"
    by blast
  from no_completion_before_marker[OF run] m run e show ?thesis by blast
qed

section \<open>Properties of the reports\<close>

lemma fold_add_columns:
  "fold (\<lambda>(a, v) columns. if f a \<in> set columns then columns else columns @ [f a]) xs cols
     = cols @ distinct_in_order (filter (\<lambda>n. n \<notin> set cols) (map (\<lambda>(a, v). f a) xs))"
proof (induction xs arbitrary: cols)
  case Nil
  then show ?case by simp
next
  case (Cons x xs)
  obtain a v where x: "x = (a, v)" by (cases x)
  show ?case
  proof (cases "f a \<in> set cols")
    case True
    then show ?thesis using Cons.IH[of cols] x by simp
  next
    case False
    have "filter (\<lambda>n. n \<notin> set (cols @ [f a])) (map (\<lambda>(a, v). f a) xs)
            = filter (\<lambda>y. y \<noteq> f a) (filter (\<lambda>n. n \<notin> set cols) (map (\<lambda>(a, v). f a) xs))"
      by (induction xs) auto
    then show ?thesis using Cons.IH[of "cols @ [f a]"] x False by simp
  qed
qed

lemma reduce_rows_columns:
  "reduce_rows rows cols m = Inr (ds, cols', m') \<Longrightarrow>
     cols' = fold (\<lambda>(a, v) columns. if ''attr_'' @ a \<in> set columns then columns
                                      else columns @ [''attr_'' @ a])
               (concat (map (sr_attrs \<circ> snd) rows)) cols
     \<and> m' = max m (max_score_count rows)
     \<and> map fst ds = map fst rows
     \<and> (\<forall>p \<in> set (zip rows ds). reduce_row (snd (fst p)) = Inr (snd (snd p)))"
proof (induction rows arbitrary: cols m ds)
  case Nil
  then show ?case by (simp add: max_score_count_def)
next
  case (Cons r rows)
  obtain k row where r: "r = (k, row)" by (cases r)
  from Cons.prems r obtain d ds0 where d: "reduce_row row = Inr d"
    and rest: "reduce_rows rows (add_attr_columns row cols)
                 (if length (sr_scores row) > m then length (sr_scores row) else m)
               = Inr (ds0, cols', m')"
    and ds: "ds = (k, d) # ds0"
    by (auto split: sum.splits prod.splits)
  from Cons.IH[OF rest] show ?case
    using r d ds by (auto simp: add_attr_columns_def max_score_count_def)
qed

lemma attr_not_base:
  "''attr_'' @ a \<notin> set [''ligand'', ''collection_key'', ''scenario'', ''score_average'', ''score_min'']"
  by simp

lemma summary_tables_csv:
  assumes "summary_tables c sk rows = Inr ups" "up \<in> set ups"
    "content up = Summary_csv header body"
  shows "header = [''ligand'', ''collection_key'', ''scenario'', ''score_average'', ''score_min'']
           @ attr_columns rows
           @ map (\<lambda>index. ''score_'' @ str_nat index) [0..<max_score_count rows]
         \<and> remote_path up = generate_output_path c (Some sk) ''csv'' ''csv.gz''"
proof -
  let ?base = "[''ligand'', ''collection_key'', ''scenario'', ''score_average'', ''score_min'']"
  from assms(1) obtain ds cols m where rr: "reduce_rows rows ?base 0 = Inr (ds, cols, m)"
    by (auto simp: summary_tables_def split: sum.splits)
  let ?names = "map (\<lambda>(attr_name, attr_value). ''attr_'' @ attr_name)
                  (concat (map (sr_attrs \<circ> snd) rows))"
  have keep: "filter (\<lambda>n. n \<notin> set ?base) (map (\<lambda>(a, v). ''attr_'' @ a) xs)
                = map (\<lambda>(a, v). ''attr_'' @ a) xs" for xs :: "(string \<times> string) list"
    by (induction xs) auto
  from reduce_rows_columns[OF rr] have m: "m = max_score_count rows" by simp
  from reduce_rows_columns[OF rr]
  have "cols = fold (\<lambda>(a, v) columns. if ''attr_'' @ a \<in> set columns then columns
                                         else columns @ [''attr_'' @ a])
                 (concat (map (sr_attrs \<circ> snd) rows)) ?base"
    by simp
  also have "fold (\<lambda>(a, v) columns. if ''attr_'' @ a \<in> set columns then columns
                                      else columns @ [''attr_'' @ a])
               (concat (map (sr_attrs \<circ> snd) rows)) ?base
             = ?base @ distinct_in_order (filter (\<lambda>n. n \<notin> set ?base) ?names)"
    by (rule fold_add_columns)
  also have "filter (\<lambda>n. n \<notin> set ?base) ?names = ?names" by (rule keep)
  finally have cols: "cols = ?base @ attr_columns rows" by (simp only: attr_columns_def)
  from assms rr have "header = cols @ map (\<lambda>index. ''score_'' @ str_nat index) [0..<m]
      \<and> remote_path up = generate_output_path c (Some sk) ''csv'' ''csv.gz''"
    by (auto simp: summary_tables_def upload_def Let_def split: if_splits)
  with cols m show ?thesis by simp
qed

lemma generate_summary_file_uploads:
  "up \<in> set (fst (generate_summary_file c sd scs)) \<Longrightarrow>
     \<exists>s rows ups. s \<in> set scs \<and> map_of sd (sc_key s) = Some rows \<and> rows \<noteq> []
       \<and> summary_tables c (sc_key s) rows = Inr ups \<and> up \<in> set ups"
proof (induction scs)
  case Nil
  then show ?case by simp
next
  case (Cons s scs)
  show ?case
  proof (cases "map_of sd (sc_key s)")
    case None
    with Cons.prems show ?thesis by simp
  next
    case (Some rows)
    show ?thesis
    proof (cases "rows = []")
      case True
      with Some Cons.prems show ?thesis by simp
    next
      case False
      show ?thesis
      proof (cases "summary_tables c (sc_key s) rows")
        case (Inl err)
        with Some False Cons.prems show ?thesis by simp
      next
        case (Inr ups)
        with Some False Cons.prems have "up \<in> set ups \<or> up \<in> set (fst (generate_summary_file c sd scs))"
          by (auto split: prod.splits)
        then show ?thesis
        proof
          assume "up \<in> set ups"
          with Some False Inr show ?thesis by auto
        next
          assume "up \<in> set (fst (generate_summary_file c sd scs))"
          from Cons.IH[OF this] show ?thesis by auto
        qed
      qed
    qed
  qed
qed

lemma map_of_fold_update_other:
  assumes "\<And>a. f a \<noteq> k"
  shows "map_of (fold (\<lambda>(a, v) d. AList.update (f a) (g v) d) xs d0) k = map_of d0 k"
proof (induction xs arbitrary: d0)
  case Nil
  then show ?case by simp
next
  case (Cons x xs)
  obtain a v where x: "x = (a, v)" by (cases x)
  have "f a \<noteq> k" by (rule assms)
  then show ?case using Cons.IH by (simp add: x update_conv')
qed

lemma str_nat_digit: "str_nat n \<noteq> [] \<and> hd (str_nat n) \<in> set ''0123456789''"
proof (induction n rule: str_nat.induct)
  case (1 n)
  show ?case
  proof (cases "n < 10")
    case True
    then have "n \<in> {0,1,2,3,4,5,6,7,8,9}" by auto
    then show ?thesis by (subst str_nat.simps, subst (2) str_nat.simps) auto
  next
    case False
    then show ?thesis using 1 by (subst str_nat.simps, subst (2) str_nat.simps) auto
  qed
qed

lemma score_key_neq:
  "''score_'' @ str_nat n \<noteq> ''score_min''" "''score_'' @ str_nat n \<noteq> ''score_average''"
  using str_nat_digit[of n] by (cases "str_nat n"; auto)+

lemma py_min_Min: "xs \<noteq> [] \<Longrightarrow> py_min xs = Inr (Min (set xs))"
  by (cases xs) (simp_all add: py_min_def Min.set_eq_fold[symmetric])

lemma reduce_row_fields:
  assumes "reduce_row row = Inr d"
  shows "sr_scores row \<noteq> []
    \<and> map_of d ''score_min'' = Some (Num (Min (set (sr_scores row))))
    \<and> map_of d ''score_average''
        = Some (Num (sum_list (sr_scores row) / real (length (sr_scores row))))
    \<and> map_of d ''ligand'' = Some (Str (sr_ligand row))
    \<and> map_of d ''scenario'' = Some (Str (sr_scenario row))"
proof -
  from assms have ne: "sr_scores row \<noteq> []"
    by (auto simp: reduce_row_def mean_def Let_def split: if_splits)
  have k1: "\<And>a. ''attr_'' @ a \<noteq> k" "\<And>a. ''tranche_'' @ str_nat a \<noteq> k"
    if "k \<in> {''score_min'', ''score_average'', ''ligand'', ''scenario''}" for k
    using that by auto
  have k2: "\<And>a. ''score_'' @ str_nat a \<noteq> k" if "k \<in> {''ligand'', ''scenario''}" for k
    using that by auto
  from assms ne show ?thesis
    unfolding reduce_row_def Let_def mean_def
    by (auto simp: py_min_Min update_conv' map_of_fold_update_other k1 k2 score_key_neq
        split: list.splits)
qed

lemma count_completion_summary_data:
  "count_completion os st k dirs = Inr st' \<Longrightarrow> summary_data st' = summary_data st"
  by (simp add: count_completion_frame)

lemma rows_update_recorded:
  assumes dist: "distinct (map fst rows)"
    and inv: "\<forall>lk. (map_of rows lk = None \<longrightarrow> g lk = [])
               \<and> (\<forall>row. map_of rows lk = Some row \<longrightarrow>
                      sr_scores row = g lk \<and> g lk \<noteq> []
                      \<and> sr_scenario row = sk \<and> sr_ligand row = lk)"
    and new: "sr_scores row' = g lk0 @ [s]" "sr_scenario row' = sk" "sr_ligand row' = lk0"
  shows "distinct (map fst (AList.update lk0 row' rows))
         \<and> (\<forall>lk. (map_of (AList.update lk0 row' rows) lk = None
                      \<longrightarrow> g lk @ (if lk = lk0 then [s] else []) = [])
               \<and> (\<forall>row. map_of (AList.update lk0 row' rows) lk = Some row \<longrightarrow>
                      sr_scores row = g lk @ (if lk = lk0 then [s] else [])
                      \<and> g lk @ (if lk = lk0 then [s] else []) \<noteq> []
                      \<and> sr_scenario row = sk \<and> sr_ligand row = lk))"
  using dist inv new by (simp add: update_conv' distinct_update)

lemma record_score_recorded:
  assumes "scores_recorded h sd" "record_score sd i = Inr sd'"
  shows "\<exists>s. score i = Some s
           \<and> scores_recorded
               (\<lambda>sk lk. h sk lk @ (if sk = scenario_key i \<and> lk = ligand_key i then [s] else []))
               sd'"
proof -
  let ?sk = "scenario_key i" and ?lk = "ligand_key i"
  from assms(2) obtain rows s where rows: "map_of sd ?sk = Some rows"
    and s: "score i = Some s"
    by (auto simp: record_score_def split: option.splits)
  from assms(1) rows have dist: "distinct (map fst rows)"
    and inv: "\<forall>lk. (map_of rows lk = None \<longrightarrow> h ?sk lk = [])
               \<and> (\<forall>row. map_of rows lk = Some row \<longrightarrow>
                      sr_scores row = h ?sk lk \<and> h ?sk lk \<noteq> []
                      \<and> sr_scenario row = ?sk \<and> sr_ligand row = lk)"
    unfolding scores_recorded_def by blast+
  obtain row' where sd': "sd' = AList.update ?sk (AList.update ?lk row' rows) sd"
    and new: "sr_scores row' = h ?sk ?lk @ [s]" "sr_scenario row' = ?sk" "sr_ligand row' = ?lk"
  proof (cases "map_of rows ?lk")
    case None
    with inv have h0: "h ?sk ?lk = []" by blast
    from None assms(2) rows s have e: "sd' = AList.update ?sk
        (AList.update ?lk
           \<lparr>sr_ligand = ?lk, sr_collection_key = collection_key i,
            sr_scenario = ?sk, sr_scores = [s], sr_attrs = attrs i\<rparr> rows) sd"
      by (simp add: record_score_def)
    show ?thesis by (rule that[OF e]) (simp_all add: h0)
  next
    case (Some row)
    with inv have r: "sr_scores row = h ?sk ?lk" "sr_scenario row = ?sk" "sr_ligand row = ?lk"
      by blast+
    from Some assms(2) rows s have e: "sd' = AList.update ?sk
        (AList.update ?lk (row\<lparr>sr_scores := sr_scores row @ [s]\<rparr>) rows) sd"
      by (simp add: record_score_def)
    show ?thesis by (rule that[OF e]) (simp_all add: r)
  qed
  note upd = rows_update_recorded[OF dist inv new]
  have "scores_recorded
          (\<lambda>sk lk. h sk lk @ (if sk = ?sk \<and> lk = ?lk then [s] else [])) sd'"
    unfolding scores_recorded_def
  proof (intro allI impI)
    fix sk rows1 assume m: "map_of sd' sk = Some rows1"
    show "distinct (map fst rows1)
          \<and> (\<forall>lk. (map_of rows1 lk = None
                       \<longrightarrow> h sk lk @ (if sk = ?sk \<and> lk = ?lk then [s] else []) = [])
                \<and> (\<forall>row. map_of rows1 lk = Some row \<longrightarrow>
                       sr_scores row = h sk lk @ (if sk = ?sk \<and> lk = ?lk then [s] else [])
                       \<and> h sk lk @ (if sk = ?sk \<and> lk = ?lk then [s] else []) \<noteq> []
                       \<and> sr_scenario row = sk \<and> sr_ligand row = lk))"
    proof (cases "sk = ?sk")
      case True
      with m sd' have "rows1 = AList.update ?lk row' rows" by (simp add: update_conv')
      with upd True show ?thesis by simp
    next
      case False
      with m sd' have "map_of sd sk = Some rows1" by (simp add: update_conv')
      with assms(1) False show ?thesis unfolding scores_recorded_def by simp
    qed
  qed
  with s show ?thesis by blast
qed

lemma single_item_recorded:
  assumes "scores_recorded h (summary_data st)" "summary_single_item os dirs st i = Inr st'"
  shows "scores_recorded (\<lambda>sk lk. h sk lk @ item_scores [i] sk lk) (summary_data st')"
proof (cases "status i = ''success''")
  case True
  with assms(2) obtain od sd where sd: "record_score (summary_data st) i = Inr sd"
    and cc: "count_completion os (st\<lparr>overview := od, summary_data := sd\<rparr>)
               (base_collection_key i) dirs = Inr st'"
    by (auto simp: summary_single_item_def split: sum.splits)
  from record_score_recorded[OF assms(1) sd] obtain s where s: "score i = Some s"
    and r: "scores_recorded
              (\<lambda>sk lk. h sk lk @ (if sk = scenario_key i \<and> lk = ligand_key i then [s] else []))
              sd"
    by blast
  have "(\<lambda>sk lk. h sk lk @ (if sk = scenario_key i \<and> lk = ligand_key i then [s] else []))
          = (\<lambda>sk lk. h sk lk @ item_scores [i] sk lk)"
    using True s by (auto simp: item_scores_def fun_eq_iff)
  with r count_completion_summary_data[OF cc] show ?thesis by simp
next
  case False
  with assms(2) obtain od where
    cc: "count_completion os (st\<lparr>overview := od\<rparr>) (base_collection_key i) dirs = Inr st'"
    by (auto simp: summary_single_item_def split: sum.splits)
  have "(\<lambda>sk lk. h sk lk @ item_scores [i] sk lk) = h"
    using False by (auto simp: item_scores_def fun_eq_iff)
  with assms(1) count_completion_summary_data[OF cc] show ?thesis by simp
qed

lemma item_scores_Cons:
  "item_scores (i # is) sk lk = item_scores [i] sk lk @ item_scores is sk lk"
  by (simp add: item_scores_def)

lemma item_scores_append:
  "item_scores (xs @ ys) sk lk = item_scores xs sk lk @ item_scores ys sk lk"
  by (simp add: item_scores_def)

lemma summary_items_recorded:
  "scores_recorded h (summary_data st) \<Longrightarrow> summary_items os dirs st is = Inr st'
    \<Longrightarrow> scores_recorded (\<lambda>sk lk. h sk lk @ item_scores is sk lk) (summary_data st')"
proof (induction "is" arbitrary: st h)
  case Nil
  then show ?case by (simp add: item_scores_def)
next
  case (Cons i "is")
  from Cons.prems(2) obtain st1 where s1: "summary_single_item os dirs st i = Inr st1"
    and s2: "summary_items os dirs st1 is = Inr st'"
    by (auto split: sum.splits)
  from Cons.IH[OF single_item_recorded[OF Cons.prems(1) s1] s2]
  show ?case by (simp add: item_scores_Cons[of i "is"])
qed

lemma summary_event_recorded:
  assumes "scores_recorded h (summary_data st)" "summary_event os dirs st ev = Inr st'"
  shows "scores_recorded (\<lambda>sk lk. h sk lk @ item_scores (event_items ev) sk lk) (summary_data st')"
proof (cases ev)
  case (Docking_complete b)
  let ?st0 = "st\<lparr>dockings_processed := dockings_processed st + 1\<rparr>"
  from assms(2) Docking_complete obtain st1 where
    s1: "summary_items os dirs ?st0 (items b) = Inr st1"
    and s2: "summary_data st' = summary_data st1"
    by (auto simp: summary_event_def dest!: move_batch_logs_result split: sum.splits if_splits)
  have "scores_recorded h (summary_data ?st0)" using assms(1) by simp
  from summary_items_recorded[OF this s1] s2 Docking_complete show ?thesis
    by (simp add: event_items_def)
next
  case (Delete tmp key n)
  with assms show ?thesis
    by (auto simp: summary_event_def event_items_def item_scores_def dest!: check_frame)
qed (use assms in \<open>auto simp: summary_event_def event_items_def item_scores_def\<close>)

lemma summary_loop_recorded:
  "scores_recorded h (summary_data st) \<Longrightarrow> summary_loop os dirs st evs = Inr st'
    \<Longrightarrow> scores_recorded (\<lambda>sk lk. h sk lk @ scores_of evs sk lk) (summary_data st')"
proof (induction evs arbitrary: st h)
  case Nil
  then show ?case by (simp add: scores_of_def item_scores_def)
next
  case (Cons ev evs)
  from Cons.prems(2) obtain st1 where s1: "summary_event os dirs st ev = Inr st1"
    and s2: "summary_loop os dirs st1 evs = Inr st'"
    by (auto split: sum.splits)
  from Cons.IH[OF summary_event_recorded[OF Cons.prems(1) s1] s2]
  show ?case by (simp add: scores_of_def item_scores_append)
qed

lemma map_of_init_rows:
  "map_of (fold (\<lambda>sk sd. AList.update sk [] sd) keys sd0) sk = Some rows
     \<Longrightarrow> rows = [] \<or> map_of sd0 sk = Some rows"
proof (induction keys arbitrary: sd0)
  case Nil
  then show ?case by simp
next
  case (Cons a keys)
  from Cons.prems have
    "map_of (fold (\<lambda>sk sd. AList.update sk [] sd) keys (AList.update a [] sd0)) sk = Some rows"
    by simp
  from Cons.IH[OF this] show ?case by (auto simp: update_conv' split: if_splits)
qed

lemma scores_recorded_init: "scores_recorded (\<lambda>sk lk. []) (summary_data (summary_init keys disk))"
  unfolding scores_recorded_def
proof (intro allI impI)
  fix sk rows assume "map_of (summary_data (summary_init keys disk)) sk = Some rows"
  then have "rows = []"
    using map_of_init_rows[of keys "[]" sk rows] by (simp add: summary_init_def)
  then show "distinct (map fst rows)
             \<and> (\<forall>lk. (map_of rows lk = None \<longrightarrow> [] = ([] :: real list))
                   \<and> (\<forall>row. map_of rows lk = Some row \<longrightarrow>
                          sr_scores row = [] \<and> [] \<noteq> ([] :: real list)
                          \<and> sr_scenario row = sk \<and> sr_ligand row = lk))"
    by simp
qed

lemma str_nat_small: "n < 10 \<Longrightarrow> str_nat n = [''0123456789'' ! n]"
  by (subst str_nat.simps) simp

lemmas report_defs =
  summary_process_def summary_finish_def scenario_directory_def generate_overview_file_def
  generate_output_archives_def summary_tables_def reduce_row_def add_attr_columns_def
  mean_def py_min_def upload_def generate_output_path_def str_nat_small

lemma reduce_rows_member:
  assumes "reduce_rows rows cols m = Inr (ds, cols', m')" "(k, d) \<in> set ds"
  shows "\<exists>row. (k, row) \<in> set rows \<and> reduce_row row = Inr d"
proof -
  from reduce_rows_columns[OF assms(1)] have fst: "map fst ds = map fst rows"
    and zp: "\<forall>p \<in> set (zip rows ds). reduce_row (snd (fst p)) = Inr (snd (snd p))"
    by blast+
  from fst have len: "length ds = length rows" by (rule map_eq_imp_length_eq)
  from assms(2) obtain j where j: "j < length ds" "ds ! j = (k, d)"
    by (auto simp: in_set_conv_nth)
  with len have "(rows ! j, ds ! j) \<in> set (zip rows ds)"
    by (auto simp: set_zip)
  with zp j have r: "reduce_row (snd (rows ! j)) = Inr d" by fastforce
  from fst j len have "fst (rows ! j) = k"
    by (metis fst_conv nth_map)
  with j len r have "(k, snd (rows ! j)) \<in> set rows \<and> reduce_row (snd (rows ! j)) = Inr d"
    by (metis nth_mem prod.collapse)
  then show ?thesis by blast
qed

lemma reduce_rows_base_columns:
  assumes "reduce_rows rows cols m = Inr (ds, cols', m')"
  shows "set cols \<subseteq> set cols'"
proof -
  from reduce_rows_columns[OF assms]
  have "cols' = fold (\<lambda>(a, v) columns. if ''attr_'' @ a \<in> set columns then columns
                                         else columns @ [''attr_'' @ a])
                 (concat (map (sr_attrs \<circ> snd) rows)) cols"
    by simp
  also have "\<dots> = cols @ distinct_in_order (filter (\<lambda>n. n \<notin> set cols)
      (map (\<lambda>(a, v). ''attr_'' @ a) (concat (map (sr_attrs \<circ> snd) rows))))"
    by (rule fold_add_columns)
  finally show ?thesis by simp
qed

lemma csv_row_lookup:
  "(\<lambda>column. case map_of (zip h (map f h)) column of Some v \<Rightarrow> v | None \<Rightarrow> None)
     = (\<lambda>column. if column \<in> set h then f column else None)"
  by (auto simp: map_of_zip_map fun_eq_iff)

lemma summary_tables_rows:
  assumes "summary_tables c sk rows = Inr ups" "up \<in> set ups"
    "r \<in> set (table_rows (content up))"
  shows "\<exists>k row d. (k, row) \<in> set rows \<and> reduce_row row = Inr d
           \<and> (\<forall>column \<in> {''ligand'', ''scenario'', ''score_average'', ''score_min''}.
                 r column = map_of d column)"
proof -
  let ?base = "[''ligand'', ''collection_key'', ''scenario'', ''score_average'', ''score_min'']"
  from assms(1) obtain ds cols m where rr: "reduce_rows rows ?base 0 = Inr (ds, cols, m)"
    by (auto simp: summary_tables_def split: sum.splits)
  define header where "header = cols @ map (\<lambda>index. ''score_'' @ str_nat index) [0..<m]"
  from assms(1,2) rr have
    "content up = Summary_parquet ds
     \<or> content up = Summary_csv header (map (\<lambda>(summary_key, d). map (map_of d) header) ds)"
    by (auto simp: summary_tables_def upload_def Let_def header_def split: if_splits)
  then have "\<exists>k d. (k, d) \<in> set ds
      \<and> (r = map_of d \<or> r = (\<lambda>column. if column \<in> set header then map_of d column else None))"
  proof
    assume "content up = Summary_parquet ds"
    with assms(3) show ?thesis by auto
  next
    assume "content up
              = Summary_csv header (map (\<lambda>(summary_key, d). map (map_of d) header) ds)"
    with assms(3) obtain k d where "(k, d) \<in> set ds"
      and "r = (\<lambda>column. case map_of (zip header (map (map_of d) header)) column of
                            Some v \<Rightarrow> v | None \<Rightarrow> None)"
      by auto
    then show ?thesis by (auto simp only: csv_row_lookup)
  qed
  then obtain k d where kd: "(k, d) \<in> set ds"
    and r: "r = map_of d \<or> r = (\<lambda>column. if column \<in> set header then map_of d column else None)"
    by blast
  from reduce_rows_base_columns[OF rr] have "set ?base \<subseteq> set header" by (auto simp: header_def)
  with r have "\<forall>column \<in> {''ligand'', ''scenario'', ''score_average'', ''score_min''}.
                 r column = map_of d column"
    by auto
  with reduce_rows_member[OF rr kd] show ?thesis by blast
qed


text \<open>
  C10. Every row of every summary table uploaded by the aggregator names a scenario and a
  ligand such that the outcomes received hold at least one successful score of that ligand
  under that scenario, and the row's \<^verbatim>\<open>score_min\<close> is the minimum and its \<^verbatim>\<open>score_average\<close>
  the arithmetic mean of those scores: the list accumulated for the row, one score for each
  successful outcome. (Scores are real numbers here; the rounding of \<^verbatim>\<open>statistics.mean\<close> to
  a float is not modelled.)
\<close>

theorem summary_rows_reduced:
  assumes "summary_process os c disk received = Inr (st, ups, err)"
    and "up \<in> set ups"
    and "r \<in> set (table_rows (content up))"
  shows "\<exists>sk lk. r ''scenario'' = Some (Str sk) \<and> r ''ligand'' = Some (Str lk)
           \<and> scores_of received sk lk \<noteq> []
           \<and> r ''score_min'' = Some (Num (Min (set (scores_of received sk lk))))
           \<and> r ''score_average''
               = Some (Num (sum_list (scores_of received sk lk)
                            / real (length (scores_of received sk lk))))"
proof -
  let ?scs = "docking_scenarios (main_config c)"
  from assms(1) have run: "summary_loop os (scenario_directory c) (summary_init (map sc_key ?scs) disk)
                             received = Inr st"
    and fin: "summary_finish c st = (ups, err)"
    by (auto simp: summary_process_def split: sum.splits)
  have rec: "scores_recorded (scores_of received) (summary_data st)"
    using summary_loop_recorded[OF scores_recorded_init run] by simp
  have "up \<in> set (fst (generate_summary_file c (summary_data st) ?scs))"
  proof -
    from fin assms(2) have "up = generate_overview_file c (overview st)
        \<or> up \<in> set (fst (generate_summary_file c (summary_data st) ?scs))
        \<or> up \<in> set (generate_output_archives c (scenario_directory c))"
      by (auto simp: summary_finish_def Let_def split: if_splits prod.splits option.splits)
    moreover have "table_rows (content (generate_overview_file c (overview st))) = []"
      by (simp add: generate_overview_file_def upload_def)
    moreover have "table_rows (content u) = []"
      if "u \<in> set (generate_output_archives c (scenario_directory c))" for u
      using that by (auto simp: generate_output_archives_def upload_def)
    ultimately show ?thesis using assms(3) by fastforce
  qed
  from generate_summary_file_uploads[OF this] obtain s :: scenario and rows ups0 where
    rows: "map_of (summary_data st) (sc_key s) = Some rows"
    and tabs: "summary_tables c (sc_key s) rows = Inr ups0" and up0: "up \<in> set ups0"
    by blast
  from summary_tables_rows[OF tabs up0 assms(3)] obtain k row d where
    mem: "(k, row) \<in> set rows" and red: "reduce_row row = Inr d"
    and cols: "\<forall>column \<in> {''ligand'', ''scenario'', ''score_average'', ''score_min''}.
                 r column = map_of d column"
    by blast
  from rec rows have dist: "distinct (map fst rows)"
    and inv: "\<forall>lk row. map_of rows lk = Some row \<longrightarrow>
                sr_scores row = scores_of received (sc_key s) lk
                \<and> sr_scenario row = sc_key s \<and> sr_ligand row = lk"
    unfolding scores_recorded_def by blast+
  from dist mem have "map_of rows k = Some row" by simp
  with inv have row: "sr_scores row = scores_of received (sc_key s) k"
    "sr_scenario row = sc_key s" "sr_ligand row = k"
    by blast+
  from reduce_row_fields[OF red] cols row show ?thesis by simp
qed

theorem summary_rows_reduced_witness:
  "scores_of example_events_replicas ''s1'' ''L1'' = [- 7.5, - 9.25, - 6.5]
   \<and> (\<exists>st ups err up r.
        summary_process example_os (example_ctx [''s1''] [''csv.gz'']) example_disk_replicas
          example_events_replicas = Inr (st, ups, err)
        \<and> up \<in> set ups \<and> r \<in> set (table_rows (content up))
        \<and> r ''ligand'' = Some (Str ''L1'') \<and> r ''scenario'' = Some (Str ''s1'')
        \<and> r ''score_0'' = Some (Num (- 7.5))
        \<and> r ''score_min'' = Some (Num (- 9.25))
        \<and> r ''score_average'' = Some (Num (- 7.75))
        \<and> (\<exists>sk lk. r ''scenario'' = Some (Str sk) \<and> r ''ligand'' = Some (Str lk)
               \<and> scores_of example_events_replicas sk lk \<noteq> []
               \<and> r ''score_min''
                   = Some (Num (Min (set (scores_of example_events_replicas sk lk))))
               \<and> r ''score_average''
                   = Some (Num (sum_list (scores_of example_events_replicas sk lk)
                                / real (length (scores_of example_events_replicas sk lk))))))"
proof -
  have sc: "scores_of example_events_replicas ''s1'' ''L1'' = [- 7.5, - 9.25, - 6.5]"
    by (simp add: scores_of_def item_scores_def event_items_def example_events_replicas_def
        example_replica_def example_batch_def example_item_def example_outcome_def)
  have "\<exists>st ups err.
          summary_process example_os (example_ctx [''s1''] [''csv.gz'']) example_disk_replicas
            example_events_replicas = Inr (st, ups, err)
          \<and> 1 < length ups \<and> table_rows (content (ups ! 1)) \<noteq> []
          \<and> hd (table_rows (content (ups ! 1))) ''ligand'' = Some (Str ''L1'')
          \<and> hd (table_rows (content (ups ! 1))) ''scenario'' = Some (Str ''s1'')
          \<and> hd (table_rows (content (ups ! 1))) ''score_0'' = Some (Num (- 7.5))
          \<and> hd (table_rows (content (ups ! 1))) ''score_min'' = Some (Num (- 9.25))
          \<and> hd (table_rows (content (ups ! 1))) ''score_average'' = Some (Num (- 7.75))"
    by (simp add: example_events_replicas_def example_replica_def example_disk_replicas_def
        example_defs report_defs example_ctx_def)
  then obtain st ups err where
    run: "summary_process example_os (example_ctx [''s1''] [''csv.gz'']) example_disk_replicas
            example_events_replicas = Inr (st, ups, err)"
    and len: "1 < length ups" and ne: "table_rows (content (ups ! 1)) \<noteq> []"
    and vals: "hd (table_rows (content (ups ! 1))) ''ligand'' = Some (Str ''L1'')"
      "hd (table_rows (content (ups ! 1))) ''scenario'' = Some (Str ''s1'')"
      "hd (table_rows (content (ups ! 1))) ''score_0'' = Some (Num (- 7.5))"
      "hd (table_rows (content (ups ! 1))) ''score_min'' = Some (Num (- 9.25))"
      "hd (table_rows (content (ups ! 1))) ''score_average'' = Some (Num (- 7.75))"
    by blast
  have up: "ups ! 1 \<in> set ups" using len by simp
  have r: "hd (table_rows (content (ups ! 1))) \<in> set (table_rows (content (ups ! 1)))"
    using ne by simp
  from summary_rows_reduced[OF run up r] sc run up r vals show ?thesis by blast
qed

text \<open>
  C7 as stated fails: the code never puts a tranche column into the ordering of the
  delimited text table. For one row of collection \<open>AAAA_1\<close> with two scores and the
  attribute \<open>smi\<close> the header written has seven columns, while the ordering of the
  specification has the four tranche columns as well.
\<close>

theorem csv_tranche_columns_counterexample:
  "csv_headers (fst (generate_summary_file (example_ctx [''s1''] [''csv.gz''])
                       example_summary_data
                       (docking_scenarios (main_config (example_ctx [''s1''] [''csv.gz''])))))
     = [[''ligand'', ''collection_key'', ''scenario'', ''score_average'', ''score_min'',
         ''attr_smi'', ''score_0'', ''score_1'']]
   \<and> spec_csv_ordering (snd (hd example_summary_data))
       = [''ligand'', ''collection_key'', ''scenario'', ''score_average'', ''score_min'',
          ''attr_smi'', ''tranche_0'', ''tranche_1'', ''tranche_2'', ''tranche_3'',
          ''score_0'', ''score_1'']
   \<and> csv_headers (fst (generate_summary_file (example_ctx [''s1''] [''csv.gz''])
                       example_summary_data
                       (docking_scenarios (main_config (example_ctx [''s1''] [''csv.gz''])))))
       \<noteq> [spec_csv_ordering (snd (hd example_summary_data))]"
  by (simp add: example_summary_data_def example_ctx_def csv_headers_def report_defs
      spec_csv_ordering_def attr_columns_def max_score_count_def tranche_count_def
      upt_conv_Cons)

text \<open>
  C7, amended. Every delimited text table uploaded by \<^verbatim>\<open>generate_summary_file\<close> belongs to
  a configured scenario, and its columns are exactly \<^verbatim>\<open>ligand\<close>, \<^verbatim>\<open>collection_key\<close>,
  \<^verbatim>\<open>scenario\<close>, \<^verbatim>\<open>score_average\<close>, \<^verbatim>\<open>score_min\<close>, then the \<^verbatim>\<open>attr_*\<close> columns of the
  scenario's rows in the order of their first appearance, then \<^verbatim>\<open>score_0\<close> to
  \<^verbatim>\<open>score_{R-1}\<close>, where \<open>R\<close> is the largest number of scores of a row of the scenario.
  The table has no tranche column.
\<close>

theorem csv_column_ordering:
  assumes "up \<in> set (fst (generate_summary_file c sd scs))"
    and "content up = Summary_csv header body"
  shows "\<exists>s rows. s \<in> set scs \<and> map_of sd (sc_key s) = Some rows
           \<and> remote_path up = generate_output_path c (Some (sc_key s)) ''csv'' ''csv.gz''
           \<and> header
               = [''ligand'', ''collection_key'', ''scenario'', ''score_average'', ''score_min'']
                 @ attr_columns rows
                 @ map (\<lambda>index. ''score_'' @ str_nat index) [0..<max_score_count rows]"
proof -
  from generate_summary_file_uploads[OF assms(1)] obtain s :: scenario and rows ups where
    s: "s \<in> set scs" and rows: "map_of sd (sc_key s) = Some rows"
    and tabs: "summary_tables c (sc_key s) rows = Inr ups" and up: "up \<in> set ups"
    by blast
  from summary_tables_csv[OF tabs up assms(2)] s rows show ?thesis by blast
qed

theorem csv_column_ordering_witness:
  "\<exists>up header body.
      up \<in> set (fst (generate_summary_file (example_ctx [''s1''] [''csv.gz''])
                       example_summary_data
                       (docking_scenarios (main_config (example_ctx [''s1''] [''csv.gz''])))))
      \<and> content up = Summary_csv header body
      \<and> (\<exists>s rows. s \<in> set (docking_scenarios (main_config (example_ctx [''s1''] [''csv.gz''])))
             \<and> map_of example_summary_data (sc_key s) = Some rows
             \<and> remote_path up
                 = generate_output_path (example_ctx [''s1''] [''csv.gz'']) (Some (sc_key s))
                     ''csv'' ''csv.gz''
             \<and> header
                 = [''ligand'', ''collection_key'', ''scenario'', ''score_average'',
                    ''score_min'']
                   @ attr_columns rows
                   @ map (\<lambda>index. ''score_'' @ str_nat index) [0..<max_score_count rows])"
proof -
  let ?c = "example_ctx [''s1''] [''csv.gz'']"
  let ?ups = "fst (generate_summary_file ?c example_summary_data
                     (docking_scenarios (main_config ?c)))"
  have "\<exists>header body. ?ups \<noteq> [] \<and> content (hd ?ups) = Summary_csv header body"
    by (simp add: example_summary_data_def example_ctx_def report_defs)
  then obtain header body where ne: "?ups \<noteq> []"
    and c: "content (hd ?ups) = Summary_csv header body"
    by blast
  have up: "hd ?ups \<in> set ?ups" using ne by simp
  from csv_column_ordering[OF up c] up c show ?thesis by blast
qed

text \<open>
  C8 fails on the code. With the scenarios \<open>s0\<close> and \<open>s1\<close> configured, a ligand whose
  docking failed for \<open>s0\<close> and succeeded for \<open>s1\<close>, the loop of \<^verbatim>\<open>generate_summary_file\<close> ends
  at \<open>s0\<close>, whose table is empty (\<^verbatim>\<open>break\<close>, line 875): the overview and the two archives are
  uploaded, and no summary table for \<open>s1\<close>, although \<open>s1\<close> has a row.
\<close>

theorem summary_table_lost_after_empty_scenario:
  "\<exists>st ups.
      summary_process example_os (example_ctx [''s0'', ''s1''] [''csv.gz''])
        example_disk_two_scenarios example_events_two_scenarios = Inr (st, ups, None)
      \<and> dockings_processed st = 2
      \<and> map (\<lambda>(sk, rows). (sk, length rows)) (summary_data st) = [(''s0'', 0), (''s1'', 1)]
      \<and> map remote_path ups
          = [''jobs/screen/summary/3/7.json.gz'', ''jobs/screen/s0/logs/3/7.tar.gz'',
             ''jobs/screen/s1/logs/3/7.tar.gz'']
      \<and> csv_headers ups = []"
  by (simp add: example_events_two_scenarios_def example_disk_two_scenarios_def example_defs
      report_defs example_ctx_def csv_headers_def)

section \<open>Properties of the unpacker\<close>

lemma prescreen_select_map_of:
  "prescreen_select cutoff ligs lines acc = Inr res \<Longrightarrow> map listing_row lines = map Inr rows \<Longrightarrow>
     (kept_rows cutoff rows lk \<noteq> [] \<longrightarrow> map_of ligs lk \<noteq> None)
     \<and> map_of res lk
         = (if kept_rows cutoff rows lk = [] then map_of acc lk
            else map_option (\<lambda>l. l\<lparr>lig_collection_key := fst (last (kept_rows cutoff rows lk))\<rparr>)
                   (map_of ligs lk))"
proof (induction lines arbitrary: ligs acc rows)
  case Nil
  then show ?case by (simp add: kept_rows_def)
next
  case (Cons line lines)
  from Cons.prems(2) obtain row rows' where rows: "rows = row # rows'"
    and row: "listing_row line = Inr row" and rest: "map listing_row lines = map Inr rows'"
    by (cases rows) auto
  obtain ck name idx where r: "row = (ck, name, idx)" by (cases row)
  show ?case
  proof (cases "idx \<ge> cutoff")
    case True
    with Cons.prems(1) row r have "prescreen_select cutoff ligs lines acc = Inr res" by simp
    from Cons.IH[OF this rest] True show ?thesis by (simp add: rows r kept_rows_def)
  next
    case False
    with Cons.prems(1) row r obtain l where l: "map_of ligs name = Some l"
      and run: "prescreen_select cutoff
                  (AList.update name (l\<lparr>lig_collection_key := ck\<rparr>) ligs) lines
                  (AList.update name (l\<lparr>lig_collection_key := ck\<rparr>) acc) = Inr res"
      by (auto split: option.splits)
    note ih = Cons.IH[OF run rest]
    show ?thesis
    proof (cases "lk = name")
      case True
      with ih l False show ?thesis
        by (auto simp: rows r kept_rows_def update_conv')
    next
      case neq: False
      with ih show ?thesis
        by (simp add: rows r kept_rows_def update_conv')
    qed
  qed
qed

lemma kept_rows_distinct:
  assumes "distinct (map (\<lambda>(ck, lk, idx). lk) rows)" "(ck, lk, idx) \<in> set rows"
  shows "kept_rows cutoff rows lk = (if idx < cutoff then [(ck, lk, idx)] else [])"
  using assms unfolding kept_rows_def
proof (induction rows)
  case Nil
  then show ?case by simp
next
  case (Cons r rows)
  obtain ck' lk' idx' where r: "r = (ck', lk', idx')" by (cases r)
  show ?case
  proof (cases "r = (ck, lk, idx)")
    case True
    with Cons.prems(1) have "\<forall>x \<in> set rows. (\<lambda>(ck, lk, idx). lk) x \<noteq> lk" by force
    then have "filter (\<lambda>(ck, name, idx). name = lk \<and> idx < cutoff) rows = []"
      by (auto simp: filter_empty_conv)
    with True show ?thesis by simp
  next
    case False
    with Cons.prems(2) have mem: "(ck, lk, idx) \<in> set rows" by simp
    with Cons.prems(1) r have "lk' \<noteq> lk" by force
    with Cons.IH mem Cons.prems(1) r show ?thesis by simp
  qed
qed

lemma member_ligands_base:
  "member_ligands item members acc = Some ligs
    \<Longrightarrow> \<forall>lk l. map_of acc lk = Some l \<longrightarrow> lig_base_collection_key l = item_collection_key item
    \<Longrightarrow> map_of ligs lk = Some l \<Longrightarrow> lig_base_collection_key l = item_collection_key item"
proof (induction item members acc rule: member_ligands.induct)
  case (1 item ligs)
  then show ?case by simp
next
  case (2 item name isdir rest acc)
  then show ?case
    by (auto simp: update_conv' split: if_splits option.splits)
qed

lemmas unpack_defs =
  unpack_item_def untar_def path_join_def listing_row_def strip_def is_space_def py_int_def
  is_digit_def digit_value_def example_download_item_def example_members_def
  example_listing_def example_archive_def example_ligand_def

lemma example_unpack:
  "member_ligands example_download_item example_members []
     = Some [(''L1'', example_ligand ''L1'' ''AAAA_1''), (''L2'', example_ligand ''L2'' ''AAAA_1''),
             (''L3'', example_ligand ''L3'' ''AAAA_1'')]"
  "map listing_row example_listing
     = map Inr [(''ABCD_7'', ''L1'', 0), (''ABCE_2'', ''L2'', 5), (''ABCF_3'', ''L3'', 1)]"
  "unpack_item example_download_item example_archive
     = Inr (Some [(''L1'', example_ligand ''L1'' ''ABCD_7''),
                  (''L3'', example_ligand ''L3'' ''ABCF_3'')])"
  by (simp_all add: unpack_defs)

text \<open>
  C6 as stated fails: nothing in lines 229-238 rejects a listing that names a ligand
  twice, and a ligand is kept as soon as one of its rows has a rank index below the
  cutoff. Here the cutoff is 2 and the listing holds the rows \<^verbatim>\<open>ABCD_7,L1,0\<close> and
  \<^verbatim>\<open>ABCE_2,L1,5\<close>: the ligand \<open>L1\<close> of the second row is in the result, although the rank
  index 5 of that row is not below the cutoff.
\<close>

theorem prescreen_ligand_named_twice_counterexample:
  "mode (item_collection example_download_item) = ''prescreen_mode''
   \<and> prescreen_ligands_per_tranche (item_collection example_download_item) = 2
   \<and> map listing_row example_listing_twice
       = map Inr [(''ABCD_7'', ''L1'', 0), (''ABCE_2'', ''L1'', 5)]
   \<and> unpack_item example_download_item example_archive_twice
       = Inr (Some [(''L1'', example_ligand ''L1'' ''ABCD_7'')])
   \<and> ''L1'' \<in> fst ` set [(''L1'', example_ligand ''L1'' ''ABCD_7'')]
   \<and> \<not> (5 :: int) < prescreen_ligands_per_tranche (item_collection example_download_item)
   \<and> \<not> (\<forall>(ck, lk, idx) \<in> set [(''ABCD_7'', ''L1'', 0 :: int), (''ABCE_2'', ''L1'', 5)].
           lk \<in> fst ` set [(''L1'', example_ligand ''L1'' ''ABCD_7'')]
             \<longleftrightarrow> idx < prescreen_ligands_per_tranche (item_collection example_download_item))"
  by (simp add: unpack_defs example_listing_twice_def example_archive_twice_def)

text \<open>
  C6, amended. Let \<^verbatim>\<open>unpack_item\<close> return a ligand set for an item in prescreen mode, let
  \<open>ligs\<close> be the ligands of its archive and \<open>rows\<close> the rows of its listing, and let the
  listing name each ligand at most once.
  Then for every row \<open>(ck, lk, idx)\<close>: the ligand \<open>lk\<close> is in the result if and only if \<open>idx\<close>
  is strictly below the cutoff \<^verbatim>\<open>prescreen_ligands_per_tranche\<close>, and then its entry is the
  archive's entry with \<^verbatim>\<open>collection_key\<close> overwritten by \<open>ck\<close>, its \<^verbatim>\<open>base_collection_key\<close>
  being the item's collection key; and every ligand of the result is named by a row with
  an index below the cutoff, so all others are dropped.
\<close>

theorem prescreen_selection:
  assumes "unpack_item item files = Inr (Some result)"
    and "mode (item_collection item) = ''prescreen_mode''"
    and "tar_members files = Some members"
    and "member_ligands item members [] = Some ligs"
    and "listing files = Some lines"
    and "map listing_row lines = map Inr rows"
    and "distinct (map (\<lambda>(ck, lk, idx). lk) rows)"
  shows "(\<forall>(ck, lk, idx) \<in> set rows.
            (lk \<in> fst ` set result
               \<longleftrightarrow> idx < prescreen_ligands_per_tranche (item_collection item))
            \<and> (idx < prescreen_ligands_per_tranche (item_collection item) \<longrightarrow>
                 (\<exists>l. map_of ligs lk = Some l
                    \<and> map_of result lk = Some (l\<lparr>lig_collection_key := ck\<rparr>)
                    \<and> lig_base_collection_key l = item_collection_key item)))
         \<and> (\<forall>lk \<in> fst ` set result.
               \<exists>ck idx. (ck, lk, idx) \<in> set rows
                  \<and> idx < prescreen_ligands_per_tranche (item_collection item))"
proof -
  let ?cutoff = "prescreen_ligands_per_tranche (item_collection item)"
  from assms(1-5) have run: "prescreen_select ?cutoff ligs lines [] = Inr result"
    by (auto simp: unpack_item_def split: sum.splits)
  note sel = prescreen_select_map_of[OF run assms(6)]
  have dom: "lk \<in> fst ` set result \<longleftrightarrow> map_of result lk \<noteq> None" for lk
    by (simp add: map_of_eq_None_iff)
  have a: "(lk \<in> fst ` set result \<longleftrightarrow> idx < ?cutoff)
           \<and> (idx < ?cutoff \<longrightarrow>
                 (\<exists>l. map_of ligs lk = Some l
                    \<and> map_of result lk = Some (l\<lparr>lig_collection_key := ck\<rparr>)
                    \<and> lig_base_collection_key l = item_collection_key item))"
    if mem: "(ck, lk, idx) \<in> set rows" for ck lk idx
  proof -
    note k = kept_rows_distinct[OF assms(7) mem, of ?cutoff]
    show ?thesis
    proof (cases "idx < ?cutoff")
      case True
      with k sel[of lk] obtain l where l: "map_of ligs lk = Some l"
        and r: "map_of result lk = Some (l\<lparr>lig_collection_key := ck\<rparr>)"
        by auto
      from member_ligands_base[OF assms(4) _ l]
      have "lig_base_collection_key l = item_collection_key item" by simp
      with True l r dom[of lk] show ?thesis by simp
    next
      case False
      with k sel[of lk] dom[of lk] show ?thesis by simp
    qed
  qed
  have b: "\<exists>ck idx. (ck, lk, idx) \<in> set rows \<and> idx < ?cutoff" if "lk \<in> fst ` set result" for lk
  proof -
    from that dom[of lk] sel[of lk] have "kept_rows ?cutoff rows lk \<noteq> []"
      by (auto split: if_splits)
    then obtain r where "r \<in> set (kept_rows ?cutoff rows lk)" by (cases "kept_rows ?cutoff rows lk") auto
    then show ?thesis by (auto simp: kept_rows_def)
  qed
  from a b show ?thesis by blast
qed

theorem prescreen_selection_witness:
  "\<exists>result ligs rows.
      unpack_item example_download_item example_archive = Inr (Some result)
      \<and> map fst result = [''L1'', ''L3'']
      \<and> member_ligands example_download_item example_members [] = Some ligs
      \<and> map listing_row example_listing = map Inr rows
      \<and> distinct (map (\<lambda>(ck, lk, idx). lk) rows)
      \<and> (\<forall>(ck, lk, idx) \<in> set rows.
            (lk \<in> fst ` set result \<longleftrightarrow> idx < 2)
            \<and> (idx < 2 \<longrightarrow>
                 (\<exists>l. map_of ligs lk = Some l
                    \<and> map_of result lk = Some (l\<lparr>lig_collection_key := ck\<rparr>)
                    \<and> lig_base_collection_key l = ''AAAA_1'')))
      \<and> (\<forall>lk \<in> fst ` set result. \<exists>ck idx. (ck, lk, idx) \<in> set rows \<and> idx < 2)"
proof -
  let ?result = "[(''L1'', example_ligand ''L1'' ''ABCD_7''),
                  (''L3'', example_ligand ''L3'' ''ABCF_3'')]"
  let ?ligs = "[(''L1'', example_ligand ''L1'' ''AAAA_1''),
                (''L2'', example_ligand ''L2'' ''AAAA_1''),
                (''L3'', example_ligand ''L3'' ''AAAA_1'')]"
  let ?rows = "[(''ABCD_7'', ''L1'', 0 :: int), (''ABCE_2'', ''L2'', 5), (''ABCF_3'', ''L3'', 1)]"
  have m: "mode (item_collection example_download_item) = ''prescreen_mode''"
    and t: "tar_members example_archive = Some example_members"
    and l: "listing example_archive = Some example_listing"
    and c: "prescreen_ligands_per_tranche (item_collection example_download_item) = 2"
    and k: "item_collection_key example_download_item = ''AAAA_1''"
    by (simp_all add: example_download_item_def example_archive_def)
  have d: "distinct (map (\<lambda>(ck, lk, idx). lk) ?rows)"
    by simp
  note sel = prescreen_selection[OF example_unpack(3) m t example_unpack(1) l
      example_unpack(2) d, unfolded c k]
  show ?thesis
  proof (rule exI[of _ ?result], rule exI[of _ ?ligs], rule exI[of _ ?rows], intro conjI)
    show "unpack_item example_download_item example_archive = Inr (Some ?result)"
      by (rule example_unpack(3))
    show "map fst ?result = [''L1'', ''L3'']" by simp
    show "member_ligands example_download_item example_members [] = Some ?ligs"
      by (rule example_unpack(1))
    show "map listing_row example_listing = map Inr ?rows"
      by (rule example_unpack(2))
    show "distinct (map (\<lambda>(ck, lk, idx). lk) ?rows)" by (rule d)
    show "\<forall>(ck, lk, idx) \<in> set ?rows.
            (lk \<in> fst ` set ?result \<longleftrightarrow> idx < 2)
            \<and> (idx < 2 \<longrightarrow>
                 (\<exists>l. map_of ?ligs lk = Some l
                    \<and> map_of ?result lk = Some (l\<lparr>lig_collection_key := ck\<rparr>)
                    \<and> lig_base_collection_key l = ''AAAA_1''))"
      by (rule conjunct1[OF sel])
    show "\<forall>lk \<in> fst ` set ?result. \<exists>ck idx. (ck, lk, idx) \<in> set ?rows \<and> idx < 2"
      by (rule conjunct2[OF sel])
  qed
qed

section \<open>Properties of the validator\<close>






text \<open>
  C4 fails on the code. When the archive cannot be opened \<^verbatim>\<open>unpack_item\<close> returns \<^verbatim>\<open>None\<close>,
  \<^verbatim>\<open>untar\<close> stores it under \<^verbatim>\<open>'ligands'\<close> and still puts the item on the collection queue, and
  \<^verbatim>\<open>collection_process\<close> raises \<^verbatim>\<open>TypeError\<close> when it iterates over it: nothing is put on the
  docking queue or the summary queue, and the exception leaves the worker.
\<close>

theorem unreadable_archive_raises_in_validator:
  "unpack_item item \<lparr>tar_members = None, listing = l\<rparr> = Inr None
   \<and> untar item \<lparr>tar_members = None, listing = l\<rparr>
       = Inr (download_item.extend item \<lparr>ligands = None\<rparr>)
   \<and> collection_process c (download_item.extend item \<lparr>ligands = None\<rparr>) ligand_files
       = ([], [], Raised TypeError)"
  by (simp add: unpack_item_def untar_def collection_process_def download_item.extend_def)




section \<open>Properties of the executor\<close>

lemma run_single_returns:
  assumes "run_single w drawn fs item tmp = (fs', Inr item')"
  shows "fs' = insert (run_dir tmp (uuid4 w drawn)) fs - {run_dir tmp (uuid4 w drawn)}"
  using assms
  unfolding run_single_def docking_process_setup_common_def docking_process_clean_common_def
    process_docking_completion_def
  by (auto split: sum.splits proc_result.splits option.splits if_splits)

lemma run_single_items_returns:
  "run_single_items w drawn fs its tmp = (fs', Inr its') \<Longrightarrow>
     fs' \<subseteq> fs \<and> (\<forall>k < length its. run_dir tmp (uuid4 w (drawn + k)) \<notin> fs')"
proof (induction its arbitrary: drawn fs its')
  case Nil
  then show ?case by simp
next
  case (Cons item its)
  from Cons.prems obtain fs1 item1 rest' where
    one: "run_single w drawn fs item tmp = (fs1, Inr item1)"
    and more: "run_single_items w (Suc drawn) fs1 its tmp = (fs', Inr rest')"
    by (auto split: prod.splits sum.splits)
  from run_single_returns[OF one] have fs1: "fs1 \<subseteq> fs" "run_dir tmp (uuid4 w drawn) \<notin> fs1"
    by auto
  from Cons.IH[OF more] have ih: "fs' \<subseteq> fs1"
    "\<forall>k < length its. run_dir tmp (uuid4 w (Suc drawn + k)) \<notin> fs'"
    by auto
  have "run_dir tmp (uuid4 w (drawn + k)) \<notin> fs'" if "k < length (item # its)" for k
  proof (cases k)
    case 0
    with fs1 ih(1) show ?thesis by auto
  next
    case (Suc j)
    with that ih(2) show ?thesis by simp
  qed
  with fs1 ih(1) show ?case by auto
qed

lemmas executor_defs =
  docking_process_batch_def run_single_def docking_process_setup_common_def
  docking_process_clean_common_def program_runstring_array_def
  process_docking_completion_def prepare_item_def run_dir_def docking_task.extend_def
  docking_task.truncate_def example_world_def example_world_start_raises_def
  example_backend_def example_scenario_def example_task_def example_item_def example_outcome_def str_nat_small

text \<open>
  C9 as stated fails: when command generation raises, the exception leaves
  \<^verbatim>\<open>docking_process_batch\<close> (\<^verbatim>\<open>raise(err)\<close>, line 559, for a \<^verbatim>\<open>RuntimeError\<close>; any other
  exception is not caught at all) and \<^verbatim>\<open>docking_process_clean_common\<close> is not reached. Here
  the start function cannot read the configuration file; after the call the run
  directory created during the setup still exists.
\<close>

theorem run_directory_left_when_start_raises_counterexample:
  "docking_process_batch example_world_start_raises 0 {} example_scenario [example_task ''L3'']
     ''/tmp''
   = ({''/tmp/run/id0''}, Inl FileNotFoundError)"
  by (simp add: executor_defs)

text \<open>
  C9, amended. Whenever \<^verbatim>\<open>docking_process_batch\<close> returns, no run directory exists that did
  not exist before, and every run directory created for an invocation of the call has
  been deleted. The function returns after a timeout of the subprocess, after a non-zero
  return code and after a completion function that finds no score; when command
  generation, the start of the subprocess or the completion function raises, the
  exception leaves the function, which then deletes nothing.
\<close>

theorem run_directories_removed_on_return:
  assumes "docking_process_batch w drawn fs s tasks tmp = (fs', Inr r)"
  shows "fs' \<subseteq> fs \<and> (\<forall>k < length tasks. run_dir tmp (uuid4 w (drawn + k)) \<notin> fs')"
proof (cases "length tasks = 0")
  case True
  with assms show ?thesis by (simp add: docking_process_batch_def)
next
  case False
  with assms obtain done_items where
    "run_single_items w drawn fs (map prepare_item tasks) tmp = (fs', Inr done_items)"
    by (auto simp: docking_process_batch_def split: option.splits if_splits prod.splits
        sum.splits)
  from run_single_items_returns[OF this] show ?thesis by simp
qed

theorem run_directories_removed_on_return_witness:
  "\<exists>b. docking_process_batch example_world 0 {''/tmp/run/earlier''} example_scenario
          [example_task ''L1'', example_task ''L2'', example_task ''L3''] ''/tmp''
        = ({''/tmp/run/earlier''}, Inr (Some b))
       \<and> map (log_reason \<circ> log) (items b)
           = [''timeout on L1'', ''Non zero return code for AAAA_1 L2 s1'',
              ''Could not find score'']
       \<and> {''/tmp/run/earlier''} \<subseteq> {''/tmp/run/earlier''}
       \<and> (\<forall>k < length [example_task ''L1'', example_task ''L2'', example_task ''L3''].
             run_dir ''/tmp'' (uuid4 example_world (0 + k)) \<notin> {''/tmp/run/earlier''})"
proof -
  have "\<exists>b. docking_process_batch example_world 0 {''/tmp/run/earlier''} example_scenario
               [example_task ''L1'', example_task ''L2'', example_task ''L3''] ''/tmp''
             = ({''/tmp/run/earlier''}, Inr (Some b))
            \<and> map (log_reason \<circ> log) (items b)
                = [''timeout on L1'', ''Non zero return code for AAAA_1 L2 s1'',
                   ''Could not find score'']"
    by (simp add: executor_defs)
  then obtain b :: batched_item where
    run: "docking_process_batch example_world 0 {''/tmp/run/earlier''} example_scenario
            [example_task ''L1'', example_task ''L2'', example_task ''L3''] ''/tmp''
          = ({''/tmp/run/earlier''}, Inr (Some b))"
    and reasons: "map (log_reason \<circ> log) (items b)
                    = [''timeout on L1'', ''Non zero return code for AAAA_1 L2 s1'',
                       ''Could not find score'']"
    by (elim exE conjE) (rule that)
  note removed = run_directories_removed_on_return[OF run]
  show ?thesis
  proof (intro exI[of _ b] conjI)
    show "docking_process_batch example_world 0 {''/tmp/run/earlier''} example_scenario
            [example_task ''L1'', example_task ''L2'', example_task ''L3''] ''/tmp''
          = ({''/tmp/run/earlier''}, Inr (Some b))"
      by (rule run)
    show "map (log_reason \<circ> log) (items b)
            = [''timeout on L1'', ''Non zero return code for AAAA_1 L2 s1'',
               ''Could not find score'']"
      by (rule reasons)
    show "{''/tmp/run/earlier''} \<subseteq> {''/tmp/run/earlier''}"
      by (rule conjunct1[OF removed])
    show "\<forall>k < length [example_task ''L1'', example_task ''L2'', example_task ''L3''].
            run_dir ''/tmp'' (uuid4 example_world (0 + k)) \<notin> {''/tmp/run/earlier''}"
      by (rule conjunct2[OF removed])
  qed
qed

end
